theory Spec2Isabelle
  imports Main "HOL-Library.Multiset"
begin

section \<open>Errors\<close>

text \<open>Every exception the client can end with is a value of \<open>error\<close>.\<close>

datatype error =
    Error string          \<comment> \<open>\<^verbatim>\<open>new Error(message)\<close>, thrown by the client itself\<close>
  | InvalidURL            \<comment> \<open>the \<^verbatim>\<open>TypeError\<close> of the \<^verbatim>\<open>URL\<close> constructor\<close>
  | MalformedCallback     \<comment> \<open>the failure of \<^verbatim>\<open>assertIsParamObj\<close>\<close>
  | InvalidTokenResponse  \<comment> \<open>the failure of \<^verbatim>\<open>assertValidTokenResponse\<close>\<close>
  | Transport string      \<comment> \<open>an error of the HTTP client, passed on unchanged\<close>

section \<open>Strings and arrays\<close>

text \<open>
  A JavaScript string is modelled as a \<^typ>\<open>string\<close>: the list of the bytes of its UTF-8
  encoding. Every separator the client and the URL library look for (comma, ampersand,
  equals sign, question mark, hash) is one ASCII byte, so splitting the bytes and
  splitting the code units agree. The strings that have such an encoding are those
  without a lone surrogate, and their encodings are the byte lists that satisfy
  \<open>utf8_valid\<close> below; a string with a lone surrogate has no term here.

  \<open>js_split sep s\<close> is \<^verbatim>\<open>s.split(sep)\<close> for a separator of one character: the pieces
  between the separators, empty pieces kept, and one empty piece for the empty string.
  \<open>js_join sep xs\<close> is \<^verbatim>\<open>xs.join(sep)\<close> on an array of strings, which is also how a
  template literal prints an array (with the comma). \<open>array_includes xs x\<close> is
  \<^verbatim>\<open>xs.includes(x)\<close>.
\<close>

primrec js_split :: "'a \<Rightarrow> 'a list \<Rightarrow> 'a list list" where
  "js_split sep [] = [[]]"
| "js_split sep (c # cs) =
     (if c = sep then [] # js_split sep cs
      else (case js_split sep cs of [] \<Rightarrow> [[c]] | w # ws \<Rightarrow> (c # w) # ws))"

fun js_join :: "'a list \<Rightarrow> 'a list list \<Rightarrow> 'a list" where
  "js_join sep [] = []"
| "js_join sep [x] = x"
| "js_join sep (x # y # ys) = x @ sep @ js_join sep (y # ys)"

definition array_includes :: "'a list \<Rightarrow> 'a \<Rightarrow> bool" where
  "array_includes xs x = (x \<in> set xs)"

text \<open>
  \<^verbatim>\<open>Number.prototype.toString\<close> on an integer. Numbers are modelled as integers; a
  client id is one (\<^verbatim>\<open>NaN\<close>, the infinities and fractions have no term here). A safe integer (at most \<open>2^53 - 1\<close> in magnitude) is printed as its
  decimal digits, with a minus sign when negative. Beyond that JavaScript prints the
  shortest digits that identify the double, padded with zeros, and an exponent from
  \<open>10^21\<close> on: what it prints there is the parameter \<open>large\<close>, and the theorems hold for
  every \<open>large\<close>.
\<close>

fun digits :: "nat \<Rightarrow> string" where
  "digits n =
     (if n < 10 then [''0123456789'' ! n]
      else digits (n div 10) @ [''0123456789'' ! (n mod 10)])"

definition MAX_SAFE_INTEGER :: int where
  "MAX_SAFE_INTEGER = 9007199254740991"

definition number_toString :: "(int \<Rightarrow> string) \<Rightarrow> int \<Rightarrow> string" where
  "number_toString large n =
     (if MAX_SAFE_INTEGER < \<bar>n\<bar> then large n
      else if n < 0 then ''-'' @ digits (nat (- n))
      else digits (nat n))"

subsection \<open>Character classes\<close>

definition code_of :: "char \<Rightarrow> nat" where
  "code_of c = of_char c"

definition ascii_digit :: "char \<Rightarrow> bool" where
  "ascii_digit c = (48 \<le> code_of c \<and> code_of c \<le> 57)"

definition ascii_upper :: "char \<Rightarrow> bool" where
  "ascii_upper c = (65 \<le> code_of c \<and> code_of c \<le> 90)"

definition ascii_lower :: "char \<Rightarrow> bool" where
  "ascii_lower c = (97 \<le> code_of c \<and> code_of c \<le> 122)"

definition ascii_alpha :: "char \<Rightarrow> bool" where
  "ascii_alpha c = (ascii_upper c \<or> ascii_lower c)"

definition ascii_alphanumeric :: "char \<Rightarrow> bool" where
  "ascii_alphanumeric c = (ascii_digit c \<or> ascii_alpha c)"

definition ascii_hex_digit :: "char \<Rightarrow> bool" where
  "ascii_hex_digit c =
     (ascii_digit c \<or> (65 \<le> code_of c \<and> code_of c \<le> 70)
      \<or> (97 \<le> code_of c \<and> code_of c \<le> 102))"

definition c0_control_or_space :: "char \<Rightarrow> bool" where
  "c0_control_or_space c = (code_of c \<le> 32)"

definition ascii_tab_or_newline :: "char \<Rightarrow> bool" where
  "ascii_tab_or_newline c = (code_of c = 9 \<or> code_of c = 10 \<or> code_of c = 13)"

section \<open>The URL library\<close>

text \<open>
  The client builds and reads URLs with the \<^verbatim>\<open>URL\<close> class of Node, which follows the
  WHATWG URL standard. This section models the part of the standard the client
  relies on: percent-encoding, the \<^verbatim>\<open>application/x-www-form-urlencoded\<close> serialiser
  and parser behind \<^verbatim>\<open>searchParams\<close>, and the URL parser.
\<close>

subsection \<open>Percent-encoding\<close>

definition hex_value :: "char \<Rightarrow> nat" where
  "hex_value c =
     (if ascii_digit c then code_of c - 48
      else if ascii_upper c then code_of c - 55
      else code_of c - 87)"

definition hex_digit :: "nat \<Rightarrow> char" where
  \<comment> \<open>\<open>0\<close> to \<open>9\<close>, then \<open>A\<close> to \<open>F\<close>\<close>
  "hex_digit n = char_of (if n < 10 then 48 + n else 55 + n)"

definition percent_encode_byte :: "char \<Rightarrow> string" where
  "percent_encode_byte c =
     [CHR ''%'', hex_digit (code_of c div 16), hex_digit (code_of c mod 16)]"

definition percent_encode :: "(char \<Rightarrow> bool) \<Rightarrow> string \<Rightarrow> string" where
  "percent_encode in_set s =
     concat (map (\<lambda>c. if in_set c then percent_encode_byte c else [c]) s)"

fun percent_decode :: "string \<Rightarrow> string" where
  "percent_decode [] = []"
| "percent_decode (c # cs) =
     (if c = CHR ''%'' then
        (case cs of
           h1 # h2 # r \<Rightarrow>
             if ascii_hex_digit h1 \<and> ascii_hex_digit h2
             then char_of (16 * hex_value h1 + hex_value h2) # percent_decode r
             else c # percent_decode cs
         | _ \<Rightarrow> c # percent_decode cs)
      else c # percent_decode cs)"

text \<open>The percent-encode sets of the standard, by character code.\<close>

definition c0_control_percent_encode_set :: "char \<Rightarrow> bool" where
  "c0_control_percent_encode_set c = (code_of c \<le> 31 \<or> 126 < code_of c)"

definition query_percent_encode_set :: "char \<Rightarrow> bool" where
  \<comment> \<open>space, double quote, hash, less-than, greater-than\<close>
  "query_percent_encode_set c =
     (c0_control_percent_encode_set c \<or> code_of c \<in> set [32, 34, 35, 60, 62])"

definition special_query_percent_encode_set :: "char \<Rightarrow> bool" where
  \<comment> \<open>and the apostrophe\<close>
  "special_query_percent_encode_set c = (query_percent_encode_set c \<or> code_of c = 39)"

definition fragment_percent_encode_set :: "char \<Rightarrow> bool" where
  \<comment> \<open>space, double quote, less-than, greater-than, backtick\<close>
  "fragment_percent_encode_set c =
     (c0_control_percent_encode_set c \<or> code_of c \<in> set [32, 34, 60, 62, 96])"

subsection \<open>UTF-8 decoding\<close>

text \<open>
  The decoder of the Encoding standard (``UTF-8 decode without BOM'', with replacement
  for errors), byte by byte: \<open>needed\<close> is the number of bytes the current code point
  still needs, \<open>lower\<close> and \<open>upper\<close> bound the next byte, and an error leaves U+FFFD
  in the output; a byte that cannot continue a code point is an error and is read
  again as a first byte. Strings being kept as their UTF-8 bytes, the decoder keeps
  the bytes \<open>seen\<close> of the current code point in place of its value and writes them
  out when the code point is complete, where the standard returns the code point they
  encode.
\<close>

definition replacement :: string where
  \<comment> \<open>U+FFFD, in UTF-8\<close>
  "replacement = [char_of (239::nat), char_of (191::nat), char_of (189::nat)]"

fun utf8_loop :: "string \<Rightarrow> nat \<Rightarrow> nat \<Rightarrow> nat \<Rightarrow> string \<Rightarrow> string" where
  "utf8_loop seen needed lower upper [] = (if needed = 0 then [] else replacement)"
| "utf8_loop seen 0 lower upper (b # bs) =
     (if code_of b \<le> 127 then b # utf8_loop [] 0 128 191 bs
      else if 194 \<le> code_of b \<and> code_of b \<le> 223 then utf8_loop [b] (Suc 0) 128 191 bs
      else if 224 \<le> code_of b \<and> code_of b \<le> 239
        then utf8_loop [b] (Suc (Suc 0))
               (if code_of b = 224 then 160 else 128) (if code_of b = 237 then 159 else 191) bs
      else if 240 \<le> code_of b \<and> code_of b \<le> 244
        then utf8_loop [b] (Suc (Suc (Suc 0)))
               (if code_of b = 240 then 144 else 128) (if code_of b = 244 then 143 else 191) bs
      else replacement @ utf8_loop [] 0 128 191 bs)"
| "utf8_loop seen (Suc n) lower upper (b # bs) =
     (if code_of b < lower \<or> upper < code_of b
        then replacement @ utf8_loop [] 0 128 191 (b # bs)
      else if n = 0 then seen @ [b] @ utf8_loop [] 0 128 191 bs
      else utf8_loop (seen @ [b]) n 128 191 bs)"

definition utf8_decode :: "string \<Rightarrow> string" where
  "utf8_decode bytes = utf8_loop [] 0 128 191 bytes"

text \<open>
  \<open>utf8_seq\<close> holds of the byte sequences that encode one code point, \<open>utf8_valid\<close>
  of their concatenations: the texts that the decoder returns unchanged
  (\<open>utf8_valid_iff\<close> below). \<open>completes\<close> is the invariant of the decoder: every
  admissible continuation of the bytes seen is such a sequence.
\<close>

fun utf8_seq :: "string \<Rightarrow> bool" where
  "utf8_seq [b] = (code_of b \<le> 127)"
| "utf8_seq [b, c1] =
     (194 \<le> code_of b \<and> code_of b \<le> 223 \<and> 128 \<le> code_of c1 \<and> code_of c1 \<le> 191)"
| "utf8_seq [b, c1, c2] =
     (224 \<le> code_of b \<and> code_of b \<le> 239
      \<and> (if code_of b = 224 then 160 else 128) \<le> code_of c1
      \<and> code_of c1 \<le> (if code_of b = 237 then 159 else 191)
      \<and> 128 \<le> code_of c2 \<and> code_of c2 \<le> 191)"
| "utf8_seq [b, c1, c2, c3] =
     (240 \<le> code_of b \<and> code_of b \<le> 244
      \<and> (if code_of b = 240 then 144 else 128) \<le> code_of c1
      \<and> code_of c1 \<le> (if code_of b = 244 then 143 else 191)
      \<and> 128 \<le> code_of c2 \<and> code_of c2 \<le> 191
      \<and> 128 \<le> code_of c3 \<and> code_of c3 \<le> 191)"
| "utf8_seq _ = False"

fun utf8_valid :: "string \<Rightarrow> bool" where
  "utf8_valid s =
     (if s = [] then True
      else (utf8_seq (take 1 s) \<and> utf8_valid (drop 1 s))
         \<or> (utf8_seq (take 2 s) \<and> utf8_valid (drop 2 s))
         \<or> (utf8_seq (take 3 s) \<and> utf8_valid (drop 3 s))
         \<or> (utf8_seq (take 4 s) \<and> utf8_valid (drop 4 s)))"

declare utf8_valid.simps [simp del]

definition completes :: "string \<Rightarrow> nat \<Rightarrow> nat \<Rightarrow> nat \<Rightarrow> bool" where
  "completes seen needed lower upper \<longleftrightarrow>
     (\<forall>tail. length tail = needed
        \<and> (\<forall>b r. tail = b # r \<longrightarrow> lower \<le> code_of b \<and> code_of b \<le> upper
              \<and> (\<forall>c\<in>set r. 128 \<le> code_of c \<and> code_of c \<le> 191))
        \<longrightarrow> utf8_seq (seen @ tail))"

subsection \<open>Form-urlencoded serialiser and parser\<close>

text \<open>
  The serialiser leaves ASCII letters, digits and \<open>* - . _\<close> alone, writes a space as
  \<open>+\<close> and percent-encodes every other byte; tuples are written \<open>name=value\<close> and
  joined with \<open>&\<close>. The parser splits at \<open>&\<close>, drops empty pieces, splits each piece
  at its first \<open>=\<close>, turns \<open>+\<close> into a space, percent-decodes and decodes the bytes
  as UTF-8.
\<close>

definition urlencoded_keep :: "char \<Rightarrow> bool" where
  "urlencoded_keep c = (ascii_alphanumeric c \<or> c \<in> set ''*-._'')"

definition urlencoded_string :: "string \<Rightarrow> string" where
  "urlencoded_string s =
     concat (map (\<lambda>c. if c = CHR '' '' then ''+''
                       else if urlencoded_keep c then [c]
                       else percent_encode_byte c) s)"

definition urlencoded_serialize :: "(string \<times> string) list \<Rightarrow> string" where
  "urlencoded_serialize tuples =
     js_join ''&''
       (map (\<lambda>(name, val). urlencoded_string name @ ''='' @ urlencoded_string val) tuples)"

definition plus_to_space :: "string \<Rightarrow> string" where
  "plus_to_space s = map (\<lambda>c. if c = CHR ''+'' then CHR '' '' else c) s"

definition cut_at :: "char \<Rightarrow> string \<Rightarrow> string \<times> string option" where
  \<comment> \<open>the text before the first \<open>c\<close>, and the text after it when there is one\<close>
  "cut_at c s =
     (takeWhile (\<lambda>x. x \<noteq> c) s,
      case dropWhile (\<lambda>x. x \<noteq> c) s of [] \<Rightarrow> None | _ # r \<Rightarrow> Some r)"

definition urlencoded_parse :: "string \<Rightarrow> (string \<times> string) list" where
  "urlencoded_parse input =
     map (\<lambda>bytes.
            case cut_at (CHR ''='') bytes of
              (name, None) \<Rightarrow> (utf8_decode (percent_decode (plus_to_space name)), [])
            | (name, Some val) \<Rightarrow>
                (utf8_decode (percent_decode (plus_to_space name)),
                 utf8_decode (percent_decode (plus_to_space val))))
       (filter (\<lambda>bytes. bytes \<noteq> []) (js_split (CHR ''&'') input))"

subsection \<open>URL objects\<close>

text \<open>
  A parsed URL: \<open>scheme_host\<close> is the serialised scheme and authority (such as
  \<open>http://localhost\<close>), \<open>pathname\<close> the serialised path, \<open>query\<close> and \<open>fragment\<close> are
  absent or the text after \<open>?\<close> and \<open>#\<close>, and \<open>searchParams\<close> is the list of the
  \<^verbatim>\<open>URLSearchParams\<close> object of the URL. \<open>searchParams_append\<close> adds a tuple to the end
  of the list and sets the query to the serialised list; \<open>searchParams_get\<close> is the
  value of the first tuple of a name, or \<^verbatim>\<open>null\<close>.
\<close>

record URL =
  scheme_host :: string
  pathname :: string
  query :: "string option"
  searchParams :: "(string \<times> string) list"
  fragment :: "string option"

definition href :: "URL \<Rightarrow> string" where
  "href u =
     scheme_host u @ pathname u
     @ (case query u of None \<Rightarrow> [] | Some q \<Rightarrow> ''?'' @ q)
     @ (case fragment u of None \<Rightarrow> [] | Some f \<Rightarrow> ''#'' @ f)"

definition searchParams_append :: "URL \<Rightarrow> string \<Rightarrow> string \<Rightarrow> URL" where
  "searchParams_append u name val =
     (let tuples = searchParams u @ [(name, val)];
          serialized = urlencoded_serialize tuples
      in u \<lparr> searchParams := tuples,
             query := (if serialized = [] then None else Some serialized) \<rparr>)"

definition searchParams_get :: "URL \<Rightarrow> string \<Rightarrow> string option" where
  "searchParams_get u name = map_of (searchParams u) name"

subsection \<open>The URL parser\<close>

text \<open>
  The parser first removes leading and trailing C0 controls and spaces and then every
  tab and newline (\<open>url_preprocess\<close>). In every state before the query, \<open>#\<close> starts the
  fragment and \<open>?\<close> starts the query, so the input is cut at its first \<open>#\<close> and what is
  left at its first \<open>?\<close>.

  What remains is the text of scheme, authority and path. It is parsed here for two
  shapes of input, on which the standard gives the results below:
  \<^item> \<open>plain_absolute\<close>: \<open>http://\<close> or \<open>https://\<close>, a host made of non-empty labels of
    lower-case letters separated by dots, and a path (empty or starting with \<open>/\<close>) of
    letters, digits and \<open>/ - _ ~\<close>. Host and path are kept as they are; an empty path
    is serialised as \<open>/\<close>.
  \<^item> \<open>plain_relative\<close>, against an \<open>http\<close> or \<open>https\<close> base: \<open>/\<close> followed by such a
    path that does not begin with a second \<open>/\<close>. The result has the scheme and
    authority of the base and the given path.

  An input without a scheme (a letter, then letters, digits and \<open>+ - .\<close>, then a
  colon) and without a base is rejected. For every other input the result is that of
  the parameter \<open>other\<close>, which stands for the rest of the library: given the text and
  the parsed base it returns the serialised scheme and authority, the serialised path
  and whether the scheme is special, or \<open>None\<close> when the library rejects the text.
  The theorems below hold for every \<open>other\<close>.

  The query is percent-encoded with the query set of the scheme; an input that is empty
  before its \<open>?\<close> and has no query inherits the query of the base.
\<close>

definition url_preprocess :: "string \<Rightarrow> string" where
  "url_preprocess input =
     filter (\<lambda>c. \<not> ascii_tab_or_newline c)
       (rev (dropWhile c0_control_or_space (rev (dropWhile c0_control_or_space input))))"

definition scheme_char :: "char \<Rightarrow> bool" where
  "scheme_char c = (ascii_alphanumeric c \<or> c \<in> set ''+-.'')"

definition has_scheme :: "string \<Rightarrow> bool" where
  "has_scheme s =
     (case s of
        [] \<Rightarrow> False
      | c # cs \<Rightarrow>
          ascii_alpha c
          \<and> (case dropWhile scheme_char cs of [] \<Rightarrow> False | d # _ \<Rightarrow> d = CHR '':''))"

definition strip_prefix :: "string \<Rightarrow> string \<Rightarrow> string option" where
  "strip_prefix p s = (if take (length p) s = p then Some (drop (length p) s) else None)"

definition plain_host :: "string \<Rightarrow> bool" where
  "plain_host h = list_all (\<lambda>l. l \<noteq> [] \<and> list_all ascii_lower l) (js_split (CHR ''.'') h)"

definition plain_path :: "string \<Rightarrow> bool" where
  "plain_path p = list_all (\<lambda>c. ascii_alphanumeric c \<or> c \<in> set ''/-_~'') p"

definition plain_absolute :: "string \<Rightarrow> (string \<times> string) option" where
  "plain_absolute s =
     (case (case strip_prefix ''http://'' s of
              Some r \<Rightarrow> Some (''http://'', r)
            | None \<Rightarrow>
                (case strip_prefix ''https://'' s of
                   Some r \<Rightarrow> Some (''https://'', r)
                 | None \<Rightarrow> None)) of
        None \<Rightarrow> None
      | Some (sch, r) \<Rightarrow>
          (let host = takeWhile (\<lambda>c. c \<noteq> CHR ''/'') r;
               path = dropWhile (\<lambda>c. c \<noteq> CHR ''/'') r
           in if plain_host host \<and> plain_path path
              then Some (sch @ host, if path = [] then ''/'' else path)
              else None))"

definition plain_relative :: "string \<Rightarrow> bool" where
  "plain_relative s =
     (case s of
        [] \<Rightarrow> False
      | c # r \<Rightarrow>
          c = CHR ''/'' \<and> plain_path r
          \<and> (case r of [] \<Rightarrow> True | d # _ \<Rightarrow> d \<noteq> CHR ''/''))"

definition http_origin :: "URL \<Rightarrow> bool" where
  "http_origin b =
     (take 7 (scheme_host b) = ''http://'' \<or> take 8 (scheme_host b) = ''https://'')"

type_synonym prefix_parser = "string \<Rightarrow> URL option \<Rightarrow> (string \<times> string \<times> bool) option"

definition parse_prefix ::
  "prefix_parser \<Rightarrow> string \<Rightarrow> URL option \<Rightarrow> (string \<times> string \<times> bool) option" where
  "parse_prefix other s base =
     (case plain_absolute s of
        Some (sh, p) \<Rightarrow> Some (sh, p, True)
      | None \<Rightarrow>
          if has_scheme s then other s base
          else (case base of
                  None \<Rightarrow> None
                | Some b \<Rightarrow>
                    if http_origin b \<and> plain_relative s then Some (scheme_host b, s, True)
                    else other s base))"

definition URL_parse :: "prefix_parser \<Rightarrow> string \<Rightarrow> URL option \<Rightarrow> error + URL" where
  "URL_parse other input base =
     (let (s1, frag) = cut_at (CHR ''#'') (url_preprocess input);
          (s0, q) = cut_at (CHR ''?'') s1
      in case parse_prefix other s0 base of
           None \<Rightarrow> Inl InvalidURL
         | Some (sh, p, special) \<Rightarrow>
             (let qry =
                    (case q of
                       Some x \<Rightarrow>
                         Some (percent_encode
                                 (if special then special_query_percent_encode_set
                                  else query_percent_encode_set) x)
                     | None \<Rightarrow>
                         (case base of
                            Some b \<Rightarrow> if s0 = [] then query b else None
                          | None \<Rightarrow> None))
              in Inr \<lparr> scheme_host = sh, pathname = p, query = qry,
                       searchParams = (case qry of None \<Rightarrow> [] | Some x \<Rightarrow> urlencoded_parse x),
                       fragment = map_option (percent_encode fragment_percent_encode_set) frag \<rparr>))"

text \<open>
  \<^verbatim>\<open>new URL(input)\<close> and \<^verbatim>\<open>new URL(input, base)\<close>: the base is parsed first, on its own,
  and a base that does not parse is a \<^verbatim>\<open>TypeError\<close> as well.
\<close>

definition URL_new :: "prefix_parser \<Rightarrow> string \<Rightarrow> string option \<Rightarrow> error + URL" where
  "URL_new other input base =
     (case base of
        None \<Rightarrow> URL_parse other input None
      | Some b \<Rightarrow>
          (case URL_parse other b None of
             Inl e \<Rightarrow> Inl e
           | Inr parsed_base \<Rightarrow> URL_parse other input (Some parsed_base)))"

text \<open>
  What the parser reads after the \<open>?\<close> of a callback URL whose text before the \<open>?\<close>
  has no space, tab, newline or \<open>#\<close>: the tail without trailing spaces and without
  tabs and newlines, up to its first \<open>#\<close>, percent-encoded and parsed.
\<close>

definition callback_tail :: "string \<Rightarrow> string" where
  "callback_tail t =
     filter (\<lambda>c. \<not> ascii_tab_or_newline c) (rev (dropWhile c0_control_or_space (rev t)))"

definition callback_query :: "string \<Rightarrow> (string \<times> string) list" where
  "callback_query t =
     urlencoded_parse
       (percent_encode special_query_percent_encode_set
          (fst (cut_at (CHR ''#'') (callback_tail t))))"

text \<open>Characters that the preprocessing and the two cuts leave in place.\<close>

definition inert :: "char \<Rightarrow> bool" where
  "inert c =
     (\<not> c0_control_or_space c \<and> \<not> ascii_tab_or_newline c
      \<and> c \<noteq> CHR ''#'' \<and> c \<noteq> CHR ''?'')"

section \<open>Configuration\<close>

text \<open>
  \<open>clientId\<close> is a string or a number. The caller's configuration
  (\<open>ClientConstructorConfig\<close>) may leave any field out: a field that is left out is
  \<open>None\<close>, and so is a \<open>clientId\<close> or \<open>clientSecret\<close> given as \<^verbatim>\<open>undefined\<close> or
  \<^verbatim>\<open>null\<close>, which the check treats as it treats a missing one. The merged
  configuration of a client (\<open>ClientConfig\<close>) has every field.
\<close>

datatype client_id = IdString string | IdNumber int

record ClientConfig =
  clientId :: client_id
  clientSecret :: string
  redirectUri :: string
  authorizationUri :: string
  tokenUri :: string
  scopes :: "string list"

record ClientConstructorConfig =
  given_clientId :: "client_id option"
  given_clientSecret :: "string option"
  given_redirectUri :: "string option"
  given_authorizationUri :: "string option"
  given_tokenUri :: "string option"
  given_scopes :: "string list option"

record Client =
  config :: ClientConfig

text \<open>JavaScript truthiness of the two checked fields: \<^verbatim>\<open>!x\<close> is \<open>\<not> truthy x\<close>.\<close>

fun truthy_id :: "client_id option \<Rightarrow> bool" where
  "truthy_id None = False"
| "truthy_id (Some (IdString s)) = (s \<noteq> [])"
| "truthy_id (Some (IdNumber n)) = (n \<noteq> 0)"

fun truthy_string :: "string option \<Rightarrow> bool" where
  "truthy_string None = False"
| "truthy_string (Some s) = (s \<noteq> [])"

definition validateConfig :: "ClientConstructorConfig \<Rightarrow> error + bool" where
  "validateConfig cfg =
     (if \<not> truthy_id (given_clientId cfg) then Inl (Error ''client_id must be specified'')
      else if \<not> truthy_string (given_clientSecret cfg)
        then Inl (Error ''client_secret must be specified'')
      else Inr True)"

text \<open>
  The object spread \<^verbatim>\<open>{ ...defaultConfig, ...config }\<close>: every field the caller gave
  wins, the default fills the rest. \<open>defaultConfig\<close> is a constant of the module
  \<^verbatim>\<open>./config\<close>; here it is a parameter of the constructor, so that what is proved
  holds for every default.
\<close>

definition spread :: "ClientConfig \<Rightarrow> ClientConstructorConfig \<Rightarrow> ClientConfig" where
  "spread defaultConfig cfg =
     \<lparr> clientId = (case given_clientId cfg of Some v \<Rightarrow> v | None \<Rightarrow> clientId defaultConfig),
       clientSecret =
         (case given_clientSecret cfg of Some v \<Rightarrow> v | None \<Rightarrow> clientSecret defaultConfig),
       redirectUri =
         (case given_redirectUri cfg of Some v \<Rightarrow> v | None \<Rightarrow> redirectUri defaultConfig),
       authorizationUri =
         (case given_authorizationUri cfg of Some v \<Rightarrow> v
          | None \<Rightarrow> authorizationUri defaultConfig),
       tokenUri = (case given_tokenUri cfg of Some v \<Rightarrow> v | None \<Rightarrow> tokenUri defaultConfig),
       scopes = (case given_scopes cfg of Some v \<Rightarrow> v | None \<Rightarrow> scopes defaultConfig) \<rparr>"

definition Client_new :: "ClientConfig \<Rightarrow> ClientConstructorConfig \<Rightarrow> error + Client" where
  "Client_new defaultConfig cfg =
     (case validateConfig cfg of
        Inl e \<Rightarrow> Inl e
      | Inr _ \<Rightarrow> Inr \<lparr> config = spread defaultConfig cfg \<rparr>)"

section \<open>Scopes\<close>

definition scopesToString :: "string list \<Rightarrow> string" where
  "scopesToString ss = js_join '','' ss"

definition stringToScopes :: "string \<Rightarrow> string list" where
  "stringToScopes scope_string = js_split (CHR '','') scope_string"

text \<open>
  The type \<open>Scope\<close> of the module \<^verbatim>\<open>types/scope\<close> is an enumeration of string
  identifiers such as \<open>read\<close> and \<open>activity:read_all\<close>, which the provider receives as
  one comma-separated list. What the development uses of it is that no identifier
  contains the separator.
\<close>

definition comma_free :: "string \<Rightarrow> bool" where
  "comma_free s = (CHR '','' \<notin> set s)"

section \<open>The authorization URI\<close>

definition RESPONSE_TYPE_CODE :: string where "RESPONSE_TYPE_CODE = ''code''"
definition APPROVAL_PROMPT_AUTO :: string where "APPROVAL_PROMPT_AUTO = ''auto''"
definition GRANT_TYPE_AUTHORIZATION_CODE :: string where
  "GRANT_TYPE_AUTHORIZATION_CODE = ''authorization_code''"
definition CLIENT_ID :: string where "CLIENT_ID = ''client_id''"
definition REDIRECT_URI :: string where "REDIRECT_URI = ''redirect_uri''"
definition RESPONSE_TYPE :: string where "RESPONSE_TYPE = ''response_type''"
definition APPROVAL_PROMPT :: string where "APPROVAL_PROMPT = ''approval_prompt''"
definition SCOPE :: string where "SCOPE = ''scope''"
definition STATE :: string where "STATE = ''state''"
definition CODE :: string where "CODE = ''code''"
definition PLACEHOLDER_URL :: string where "PLACEHOLDER_URL = ''http://localhost''"

fun client_id_toString :: "(int \<Rightarrow> string) \<Rightarrow> client_id \<Rightarrow> string" where
  "client_id_toString large (IdString s) = s"
| "client_id_toString large (IdNumber n) = number_toString large n"

definition getAuthorizationUri ::
  "prefix_parser \<Rightarrow> (int \<Rightarrow> string) \<Rightarrow> Client \<Rightarrow> error + string" where
  "getAuthorizationUri other large this =
     (case URL_new other (authorizationUri (config this)) None of
        Inl e \<Rightarrow> Inl e
      | Inr uri0 \<Rightarrow>
          (let uri1 = searchParams_append uri0 CLIENT_ID
                        (client_id_toString large (clientId (config this)));
               uri2 = searchParams_append uri1 REDIRECT_URI (redirectUri (config this));
               uri3 = searchParams_append uri2 RESPONSE_TYPE RESPONSE_TYPE_CODE;
               uri4 = searchParams_append uri3 APPROVAL_PROMPT APPROVAL_PROMPT_AUTO;
               uri5 = searchParams_append uri4 SCOPE (scopesToString (scopes (config this)))
           in Inr (href uri5)))"

text \<open>The five tuples that \<open>getAuthorizationUri\<close> appends, in its order.\<close>

definition authorization_params :: "(int \<Rightarrow> string) \<Rightarrow> Client \<Rightarrow> (string \<times> string) list" where
  "authorization_params large this =
     [(''client_id'', client_id_toString large (clientId (config this))),
      (''redirect_uri'', redirectUri (config this)),
      (''response_type'', ''code''),
      (''approval_prompt'', ''auto''),
      (''scope'', scopesToString (scopes (config this)))]"

section \<open>Token exchange\<close>

datatype json =
    JNull
  | JBool bool
  | JNumber int
  | JString string
  | JArray "json list"
  | JObject "(string \<times> json) list"

record ParamObject =
  code :: string
  state :: string
  scope :: string

text \<open>A call \<^verbatim>\<open>axios.post(url, data)\<close>.\<close>

record request =
  post_url :: string
  post_data :: "(string \<times> json) list"

text \<open>
  The body of a valid response, \<open>TokenResponse\<close>; the athlete is a payload that is
  passed through as it is. \<^verbatim>\<open>new Token(...)\<close>, of the module \<^verbatim>\<open>./token\<close>, takes the
  six fields in this order and is modelled as the value holding them.
\<close>

record TokenResponse =
  token_type :: string
  expires_at :: int
  expires_in :: int
  refresh_token :: string
  access_token :: string
  athlete :: json

datatype Token = Token string int int string string json

fun client_id_json :: "client_id \<Rightarrow> json" where
  "client_id_json (IdString s) = JString s"
| "client_id_json (IdNumber n) = JNumber n"

fun field :: "string \<Rightarrow> json \<Rightarrow> json option" where
  "field k (JObject kvs) = map_of kvs k"
| "field k _ = None"

definition assertValidTokenResponse :: "json \<Rightarrow> error + TokenResponse" where
  \<comment> \<open>Modelled from the spec: \<^verbatim>\<open>assertValidTokenResponse\<close> of the module
      \<^verbatim>\<open>./helpers\<close>. The response is rejected when one of the six fields is absent
      or mistyped.\<close>
  "assertValidTokenResponse d =
     (case (field ''token_type'' d, field ''expires_at'' d, field ''expires_in'' d,
            field ''refresh_token'' d, field ''access_token'' d, field ''athlete'' d) of
        (Some (JString tt), Some (JNumber ea), Some (JNumber ei),
         Some (JString rt), Some (JString at), Some ath) \<Rightarrow>
          Inr \<lparr> token_type = tt, expires_at = ea, expires_in = ei,
                refresh_token = rt, access_token = at, athlete = ath \<rparr>
      | _ \<Rightarrow> Inl InvalidTokenResponse)"

text \<open>
  The loop \<^verbatim>\<open>for (let scope of scopes) if (!this.config.scopes.includes(scope)) throw e\<close>:
  \<open>True\<close> when it throws.
\<close>

fun some_not_included :: "string list \<Rightarrow> string list \<Rightarrow> bool" where
  "some_not_included requested [] = False"
| "some_not_included requested (s # ss) =
     (if \<not> array_includes requested s then True else some_not_included requested ss)"

text \<open>
  \<open>getTokenFromObject\<close> returns the requests it has sent, in order, beside its result.
  The HTTP client is the parameter \<open>post\<close>: what the provider answers to a request,
  or the transport error.
\<close>

definition getTokenFromObject ::
  "(request \<Rightarrow> error + json) \<Rightarrow> Client \<Rightarrow> ParamObject \<Rightarrow> request list \<times> (error + Token)" where
  "getTokenFromObject post this param_object =
     (let scope_string = scope param_object;
          granted = stringToScopes scope_string;
          e = Error (''Requested scopes '' @ js_join '','' (scopes (config this))
                     @ '' not granted. Got: '' @ js_join '','' granted)
      in if length granted \<noteq> length (scopes (config this)) then ([], Inl e)
         else if some_not_included (scopes (config this)) granted then ([], Inl e)
         else
           let req = \<lparr> post_url = tokenUri (config this),
                       post_data =
                         [(''client_id'', client_id_json (clientId (config this))),
                          (''client_secret'', JString (clientSecret (config this))),
                          (''code'', JString (code param_object)),
                          (''grant_type'', JString GRANT_TYPE_AUTHORIZATION_CODE)] \<rparr>
           in (case post req of
                 Inl err \<Rightarrow> ([req], Inl err)
               | Inr res_data \<Rightarrow>
                   (case assertValidTokenResponse res_data of
                      Inl err \<Rightarrow> ([req], Inl err)
                    | Inr d \<Rightarrow>
                        ([req],
                         Inr (Token (token_type d) (expires_at d) (expires_in d)
                                (refresh_token d) (access_token d) (athlete d))))))"

text \<open>
  The object \<^verbatim>\<open>paramObject\<close> of \<open>getToken\<close>, whose fields may be \<^verbatim>\<open>null\<close>, and the
  first statements of \<open>getToken\<close> that build it, with the base of the parse as a
  parameter; \<open>getToken\<close> passes \<open>PLACEHOLDER_URL\<close>.
\<close>

record NullableParamObject =
  state_or_null :: "string option"
  code_or_null :: "string option"
  scope_or_null :: "string option"

definition callbackParams ::
  "prefix_parser \<Rightarrow> string \<Rightarrow> string \<Rightarrow> error + NullableParamObject" where
  "callbackParams other base req_url =
     (case URL_new other req_url (Some base) of
        Inl e \<Rightarrow> Inl e
      | Inr url \<Rightarrow>
          Inr \<lparr> state_or_null = searchParams_get url STATE,
                code_or_null = searchParams_get url CODE,
                scope_or_null = searchParams_get url SCOPE \<rparr>)"

definition assertIsParamObj ::
  "(ParamObject \<Rightarrow> bool) \<Rightarrow> NullableParamObject \<Rightarrow> error + ParamObject" where
  \<comment> \<open>Modelled from the spec: \<^verbatim>\<open>assertIsParamObj\<close> of the module \<^verbatim>\<open>./helpers\<close>.
      It rejects an object with a missing field; what else it demands of the three
      strings (a non-empty code, a well-formed scope string) is the parameter
      \<open>well_formed\<close>.\<close>
  "assertIsParamObj well_formed p =
     (case (state_or_null p, code_or_null p, scope_or_null p) of
        (Some s, Some c, Some sc) \<Rightarrow>
          (let po = \<lparr> code = c, state = s, scope = sc \<rparr>
           in if well_formed po then Inr po else Inl MalformedCallback)
      | _ \<Rightarrow> Inl MalformedCallback)"

definition getToken ::
  "prefix_parser \<Rightarrow> (ParamObject \<Rightarrow> bool) \<Rightarrow> (request \<Rightarrow> error + json) \<Rightarrow> Client \<Rightarrow> string
     \<Rightarrow> request list \<times> (error + Token)" where
  "getToken other well_formed post this req_url =
     (case callbackParams other PLACEHOLDER_URL req_url of
        Inl e \<Rightarrow> ([], Inl e)
      | Inr paramObject \<Rightarrow>
          (case assertIsParamObj well_formed paramObject of
             Inl e \<Rightarrow> ([], Inl e)
           | Inr param_object \<Rightarrow> getTokenFromObject post this param_object))"

section \<open>Method calls\<close>

text \<open>
  A call of a method on a client gives the client after the call and what the call
  returned. No method assigns to \<^verbatim>\<open>this.config\<close>, so the client after the call is the
  client before it.
\<close>

datatype call =
    ScopesToString "string list"
  | StringToScopes string
  | ValidateConfig ClientConstructorConfig
  | GetAuthorizationUri
  | GetToken string
  | GetTokenFromObject ParamObject

datatype outcome =
    RString string
  | RScopes "string list"
  | RValid "error + bool"
  | RUri "error + string"
  | RToken "request list \<times> (error + Token)"

fun invoke ::
  "prefix_parser \<Rightarrow> (int \<Rightarrow> string) \<Rightarrow> (ParamObject \<Rightarrow> bool) \<Rightarrow> (request \<Rightarrow> error + json) \<Rightarrow> Client \<Rightarrow> call
     \<Rightarrow> Client \<times> outcome" where
  "invoke other large ok post this (ScopesToString ss) = (this, RString (scopesToString ss))"
| "invoke other large ok post this (StringToScopes s) = (this, RScopes (stringToScopes s))"
| "invoke other large ok post this (ValidateConfig cfg) = (this, RValid (validateConfig cfg))"
| "invoke other large ok post this GetAuthorizationUri =
     (this, RUri (getAuthorizationUri other large this))"
| "invoke other large ok post this (GetToken req_url) =
     (this, RToken (getToken other ok post this req_url))"
| "invoke other large ok post this (GetTokenFromObject po) =
     (this, RToken (getTokenFromObject post this po))"

fun invoke_all ::
  "prefix_parser \<Rightarrow> (int \<Rightarrow> string) \<Rightarrow> (ParamObject \<Rightarrow> bool) \<Rightarrow> (request \<Rightarrow> error + json) \<Rightarrow> Client
     \<Rightarrow> call list \<Rightarrow> Client" where
  "invoke_all other large ok post this [] = this"
| "invoke_all other large ok post this (c # cs) =
     invoke_all other large ok post (fst (invoke other large ok post this c)) cs"

section \<open>Example inputs\<close>

text \<open>
  \<open>no_other\<close> rejects every text that the parser hands to it; the examples below use
  URLs of the two parsed shapes, or without a scheme, for which it is never asked.
  \<open>no_large\<close> prints nothing; the client id of the examples is a safe integer, for
  which it is never asked. \<open>demo_post\<close> is a provider that cannot be reached.
\<close>

definition no_other :: prefix_parser where
  "no_other s base = None"

definition no_large :: "int \<Rightarrow> string" where
  "no_large n = []"

definition demo_config :: ClientConfig where
  "demo_config =
     \<lparr> clientId = IdNumber 12345, clientSecret = ''s3cret'',
       redirectUri = ''https://app.example/callback'',
       authorizationUri = ''https://www.strava.com/oauth/authorize'',
       tokenUri = ''https://www.strava.com/oauth/token'',
       scopes = [''read'', ''activity:read_all''] \<rparr>"

definition demo_given :: ClientConstructorConfig where
  "demo_given =
     \<lparr> given_clientId = Some (IdNumber 12345), given_clientSecret = Some ''s3cret'',
       given_redirectUri = Some ''https://app.example/callback'',
       given_authorizationUri = None, given_tokenUri = None,
       given_scopes = Some [''read'', ''activity:read_all''] \<rparr>"

definition demo_post :: "request \<Rightarrow> error + json" where
  "demo_post req = Inl (Transport ''offline'')"

section \<open>Splitting and joining\<close>

lemma js_split_not_Nil: "js_split sep s \<noteq> []"
  by (induction s) (auto split: list.splits)

lemma js_split_no_sep: "sep \<notin> set x \<Longrightarrow> js_split sep x = [x]"
  by (induction x) auto

lemma js_split_append_sep:
  "sep \<notin> set x \<Longrightarrow> js_split sep (x @ sep # s) = x # js_split sep s"
  by (induction x) auto

lemma js_split_join:
  "S \<noteq> [] \<Longrightarrow> \<forall>s\<in>set S. sep \<notin> set s \<Longrightarrow> js_split sep (js_join [sep] S) = S"
proof (induction "[sep]" S rule: js_join.induct)
  case 1
  then show ?case by simp
next
  case (2 x)
  then show ?case by (simp add: js_split_no_sep)
next
  case (3 x y ys)
  then show ?case by (simp add: js_split_append_sep)
qed

lemma js_split_sep_free: "w \<in> set (js_split sep s) \<Longrightarrow> sep \<notin> set w"
  by (induction s arbitrary: w) (auto split: if_splits list.splits)

lemma js_join_split: "js_join [sep] (js_split sep s) = s"
proof (induction s)
  case Nil
  then show ?case by simp
next
  case (Cons c cs)
  show ?case
  proof (cases "js_split sep cs")
    case Nil
    then show ?thesis by (simp add: js_split_not_Nil)
  next
    case (Cons w ws)
    with Cons.IH show ?thesis by (cases ws) auto
  qed
qed

lemma js_join_chars: "set (js_join [c] xs) \<subseteq> insert c (\<Union> (set ` set xs))"
  by (induction "[c]" xs rule: js_join.induct) auto

text \<open>
  Whatever \<open>stringToScopes\<close> returns is non-empty and made of comma-free pieces, so
  the round trip can hold for such sequences only.
\<close>

lemma stringToScopes_range:
  "stringToScopes s \<noteq> [] \<and> list_all comma_free (stringToScopes s)"
  by (auto simp: stringToScopes_def js_split_not_Nil list_all_iff comma_free_def
      dest: js_split_sep_free)

section \<open>UTF-8 decoding returns well-formed text and leaves it unchanged\<close>

lemma replacement_seq: "utf8_seq replacement"
  by (simp add: replacement_def code_of_def)

lemma utf8_valid_Nil: "utf8_valid []"
  by (simp add: utf8_valid.simps)

lemma utf8_valid_append_seq:
  assumes "utf8_seq c" and "utf8_valid r"
  shows "utf8_valid (c @ r)"
proof -
  have ne: "c \<noteq> []" using assms(1) by auto
  have len: "length c = 1 \<or> length c = 2 \<or> length c = 3 \<or> length c = 4"
    using assms(1) by (induction c rule: utf8_seq.induct) auto
  have "take (length c) (c @ r) = c" and "drop (length c) (c @ r) = r" by simp_all
  with len assms ne show ?thesis
    by (subst utf8_valid.simps) (auto simp del: utf8_valid.simps)
qed

lemma utf8_loop_seq:
  assumes "utf8_seq c"
  shows "utf8_loop [] 0 128 191 (c @ r) = c @ utf8_loop [] 0 128 191 r"
  using assms by (induction c rule: utf8_seq.induct) (auto split: if_splits)

lemma utf8_valid_decode: "utf8_valid s \<Longrightarrow> utf8_decode s = s"
proof (induction s rule: utf8_valid.induct)
  case (1 s)
  show ?case
  proof (cases "s = []")
    case True
    then show ?thesis by (simp add: utf8_decode_def)
  next
    case False
    from "1.prems" False obtain k where k: "k = 1 \<or> k = 2 \<or> k = 3 \<or> k = 4"
      and seq: "utf8_seq (take k s)" and rest: "utf8_valid (drop k s)"
      by (subst (asm) utf8_valid.simps) auto
    from k rest False "1.IH" have "utf8_decode (drop k s) = drop k s" by auto
    then have "utf8_loop [] 0 128 191 (take k s @ drop k s) = take k s @ drop k s"
      using utf8_loop_seq [OF seq, of "drop k s"] by (simp add: utf8_decode_def)
    then show ?thesis by (simp add: utf8_decode_def)
  qed
qed

lemma completes_step:
  assumes "completes seen (Suc n) lower upper" and "lower \<le> code_of b" and "code_of b \<le> upper"
  shows "completes (seen @ [b]) n 128 191"
  unfolding completes_def
proof (intro allI impI)
  fix tail
  assume t: "length tail = n \<and> (\<forall>b r. tail = b # r \<longrightarrow> 128 \<le> code_of b \<and> code_of b \<le> 191
              \<and> (\<forall>c\<in>set r. 128 \<le> code_of c \<and> code_of c \<le> 191))"
  then have all: "\<forall>c\<in>set tail. 128 \<le> code_of c \<and> code_of c \<le> 191"
    by (cases tail) auto
  from assms(1) have "length (b # tail) = Suc n
        \<and> (\<forall>b' r. b # tail = b' # r \<longrightarrow> lower \<le> code_of b' \<and> code_of b' \<le> upper
              \<and> (\<forall>c\<in>set r. 128 \<le> code_of c \<and> code_of c \<le> 191))
        \<longrightarrow> utf8_seq (seen @ b # tail)"
    unfolding completes_def by blast
  with t all assms(2,3) show "utf8_seq ((seen @ [b]) @ tail)" by simp
qed

lemma completes_done: "completes seen 0 lower upper \<Longrightarrow> utf8_seq seen"
  unfolding completes_def by force

lemma utf8_loop_valid:
  "needed = 0 \<or> completes seen needed lower upper \<Longrightarrow> utf8_valid (utf8_loop seen needed lower upper s)"
proof (induction seen needed lower upper s rule: utf8_loop.induct)
  case (1 seen needed lower upper)
  then show ?case
    using utf8_valid_append_seq [OF replacement_seq utf8_valid_Nil] by (auto simp: utf8_valid_Nil)
next
  case (2 seen lower upper b bs)
  have two: "completes [b] (Suc 0) 128 191" if "194 \<le> code_of b" "code_of b \<le> 223"
    using that unfolding completes_def by (auto simp: length_Suc_conv)
  have three: "completes [b] (Suc (Suc 0)) (if code_of b = 224 then 160 else 128)
      (if code_of b = 237 then 159 else 191)" if "224 \<le> code_of b" "code_of b \<le> 239"
    using that unfolding completes_def by (auto simp: length_Suc_conv)
  have four: "completes [b] (Suc (Suc (Suc 0))) (if code_of b = 240 then 144 else 128)
      (if code_of b = 244 then 143 else 191)" if "240 \<le> code_of b" "code_of b \<le> 244"
    using that unfolding completes_def by (auto simp: length_Suc_conv)
  consider (a) "code_of b \<le> 127"
    | (b) "\<not> code_of b \<le> 127" "194 \<le> code_of b \<and> code_of b \<le> 223"
    | (c) "\<not> code_of b \<le> 127" "\<not> (194 \<le> code_of b \<and> code_of b \<le> 223)"
          "224 \<le> code_of b \<and> code_of b \<le> 239"
    | (d) "\<not> code_of b \<le> 127" "\<not> (194 \<le> code_of b \<and> code_of b \<le> 223)"
          "\<not> (224 \<le> code_of b \<and> code_of b \<le> 239)" "240 \<le> code_of b \<and> code_of b \<le> 244"
    | (e) "\<not> code_of b \<le> 127" "\<not> (194 \<le> code_of b \<and> code_of b \<le> 223)"
          "\<not> (224 \<le> code_of b \<and> code_of b \<le> 239)" "\<not> (240 \<le> code_of b \<and> code_of b \<le> 244)"
    by blast
  then show ?case
  proof cases
    case a
    then have "utf8_seq [b]" by simp
    from utf8_valid_append_seq [OF this "2.IH"(1) [OF a]] a show ?thesis by simp
  next
    case b
    with "2.IH"(2) [OF b(1) b(2)] two show ?thesis by simp
  next
    case c
    with "2.IH"(3) [OF c(1) c(2) c(3)] three show ?thesis by simp
  next
    case d
    with "2.IH"(4) [OF d(1) d(2) d(3) d(4)] four show ?thesis by simp
  next
    case e
    from utf8_valid_append_seq [OF replacement_seq "2.IH"(5) [OF e(1) e(2) e(3) e(4)]] e
    show ?thesis by auto
  qed
next
  case (3 seen n lower upper b bs)
  from "3.prems" have comp: "completes seen (Suc n) lower upper" by simp
  show ?case
  proof (cases "code_of b < lower \<or> upper < code_of b")
    case True
    from utf8_valid_append_seq [OF replacement_seq "3.IH"(1) [OF True]] True
    show ?thesis by simp
  next
    case False
    then have range: "lower \<le> code_of b" "code_of b \<le> upper" by auto
    note step = completes_step [OF comp range]
    show ?thesis
    proof (cases "n = 0")
      case True
      with step have "utf8_seq (seen @ [b])" by (simp add: completes_done)
      from utf8_valid_append_seq [OF this "3.IH"(2) [OF False True]] False True
      show ?thesis by simp
    next
      case n: False
      from "3.IH"(3) [OF False n] step False n show ?thesis by simp
    qed
  qed
qed

lemma utf8_decode_valid: "utf8_valid (utf8_decode s)"
  unfolding utf8_decode_def by (rule utf8_loop_valid) simp

lemma utf8_valid_iff: "utf8_valid s \<longleftrightarrow> utf8_decode s = s"
  using utf8_valid_decode utf8_decode_valid by metis

lemma utf8_valid_ascii: "\<forall>c\<in>set s. code_of c \<le> 127 \<Longrightarrow> utf8_valid s"
proof (induction s)
  case Nil
  then show ?case by (simp add: utf8_valid_Nil)
next
  case (Cons c s)
  then have "utf8_seq [c]" and "utf8_valid s" by simp_all
  from utf8_valid_append_seq [OF this] show ?case by simp
qed

section \<open>Form-urlencoding is reversible\<close>

lemma code_of_less: "code_of c < 256"
  by (simp add: code_of_def)

lemma hex_digit_props:
  assumes "k < 16"
  shows "ascii_hex_digit (hex_digit k)" and "hex_value (hex_digit k) = k"
    and "hex_digit k \<noteq> CHR ''+''" and "hex_digit k \<noteq> CHR ''&''" and "hex_digit k \<noteq> CHR ''=''"
  using assms
  by (auto simp: hex_digit_def ascii_hex_digit_def hex_value_def ascii_digit_def
      ascii_upper_def code_of_def char_of_eq_iff take_bit_eq_mod)

lemma percent_decode_other: "c \<noteq> CHR ''%'' \<Longrightarrow> percent_decode (c # r) = c # percent_decode r"
  by simp

lemma percent_decode_encoded_byte:
  "percent_decode (percent_encode_byte c @ r) = c # percent_decode r"
proof -
  have d: "code_of c div 16 < 16" and m: "code_of c mod 16 < 16"
    using code_of_less [of c] by auto
  have "char_of (16 * (code_of c div 16) + code_of c mod 16) = c"
    by (simp add: code_of_def)
  then show ?thesis
    by (simp add: percent_encode_byte_def hex_digit_props [OF d] hex_digit_props [OF m])
qed

lemma urlencoded_keep_plain:
  assumes "urlencoded_keep c"
  shows "c \<noteq> CHR ''%''" and "c \<noteq> CHR ''+''" and "c \<noteq> CHR ''&''" and "c \<noteq> CHR ''=''"
  using assms
  by (auto simp: urlencoded_keep_def ascii_alphanumeric_def ascii_digit_def ascii_alpha_def
      ascii_upper_def ascii_lower_def code_of_def)

lemma urlencoded_keep_ampersand: "\<not> urlencoded_keep (CHR ''&'')"
  using urlencoded_keep_plain(3) by blast

lemma urlencoded_keep_equals: "\<not> urlencoded_keep (CHR ''='')"
  using urlencoded_keep_plain(4) by blast

lemma urlencoded_string_Cons:
  "urlencoded_string (c # s) =
     (if c = CHR '' '' then ''+'' else if urlencoded_keep c then [c] else percent_encode_byte c)
     @ urlencoded_string s"
  by (simp add: urlencoded_string_def)

lemma urlencoded_string_Nil: "urlencoded_string [] = []"
  by (simp add: urlencoded_string_def)

lemma plus_to_space_append: "plus_to_space (a @ b) = plus_to_space a @ plus_to_space b"
  by (simp add: plus_to_space_def)

lemma plus_to_space_encoded_byte: "plus_to_space (percent_encode_byte c) = percent_encode_byte c"
proof -
  have d: "code_of c div 16 < 16" and m: "code_of c mod 16 < 16"
    using code_of_less [of c] by auto
  show ?thesis
    by (simp add: percent_encode_byte_def plus_to_space_def hex_digit_props [OF d]
        hex_digit_props [OF m])
qed

lemma urlencoded_string_decode:
  "percent_decode (plus_to_space (urlencoded_string s)) = s"
proof (induction s)
  case Nil
  then show ?case by (simp add: urlencoded_string_def plus_to_space_def)
next
  case (Cons c s)
  consider "c = CHR '' ''" | "c \<noteq> CHR '' ''" "urlencoded_keep c"
    | "c \<noteq> CHR '' ''" "\<not> urlencoded_keep c" by blast
  then show ?case
  proof cases
    case 1
    with Cons.IH show ?thesis
      by (simp add: urlencoded_string_Cons plus_to_space_append) (simp add: plus_to_space_def)
  next
    case 2
    with Cons.IH urlencoded_keep_plain [OF 2(2)] show ?thesis
      by (simp add: urlencoded_string_Cons plus_to_space_append) (simp add: plus_to_space_def)
  next
    case 3
    with Cons.IH show ?thesis
      by (simp add: urlencoded_string_Cons plus_to_space_append plus_to_space_encoded_byte
          percent_decode_encoded_byte del: percent_decode.simps)
  qed
qed

lemma urlencoded_string_no_separator:
  shows "CHR ''&'' \<notin> set (urlencoded_string s)" and "CHR ''='' \<notin> set (urlencoded_string s)"
proof -
  have b: "CHR ''&'' \<notin> set (percent_encode_byte c) \<and> CHR ''='' \<notin> set (percent_encode_byte c)" for c
  proof -
    have d: "code_of c div 16 < 16" and m: "code_of c mod 16 < 16"
      using code_of_less [of c] by auto
    show ?thesis
      using hex_digit_props [OF d] hex_digit_props [OF m]
      by (auto simp: percent_encode_byte_def)
  qed
  show "CHR ''&'' \<notin> set (urlencoded_string s)"
    using b by (induction s) (auto simp: urlencoded_string_Cons urlencoded_string_Nil
        urlencoded_keep_ampersand urlencoded_keep_equals)
  show "CHR ''='' \<notin> set (urlencoded_string s)"
    using b by (induction s) (auto simp: urlencoded_string_Cons urlencoded_string_Nil
        urlencoded_keep_ampersand urlencoded_keep_equals)
qed

lemma cut_at_found: "c \<notin> set a \<Longrightarrow> cut_at c (a @ c # b) = (a, Some b)"
  by (induction a) (auto simp: cut_at_def)

lemma cut_at_missing: "c \<notin> set a \<Longrightarrow> cut_at c a = (a, None)"
  by (induction a) (auto simp: cut_at_def)


lemma urlencoded_round_trip:
  assumes "\<forall>(name, val)\<in>set tuples. utf8_valid name \<and> utf8_valid val"
  shows "urlencoded_parse (urlencoded_serialize tuples) = tuples"
proof (cases "tuples = []")
  case True
  then show ?thesis by (simp add: urlencoded_parse_def urlencoded_serialize_def)
next
  case False
  let ?f = "\<lambda>(name, val). urlencoded_string name @ ''='' @ urlencoded_string val"
  have sep: "\<forall>s\<in>set (map ?f tuples). CHR ''&'' \<notin> set s"
    by (auto simp: urlencoded_string_no_separator)
  have ne: "map ?f tuples \<noteq> []" using False by simp
  have split: "js_split (CHR ''&'') (js_join ''&'' (map ?f tuples)) = map ?f tuples"
    using js_split_join [OF ne sep] by simp
  have keep: "filter (\<lambda>bytes. bytes \<noteq> []) (map ?f tuples) = map ?f tuples"
    by (induction tuples) auto
  let ?g = "\<lambda>bytes. case cut_at (CHR ''='') bytes of
               (name, None) \<Rightarrow> (utf8_decode (percent_decode (plus_to_space name)), [])
             | (name, Some val) \<Rightarrow>
                 (utf8_decode (percent_decode (plus_to_space name)),
                  utf8_decode (percent_decode (plus_to_space val)))"
  have one: "?g (?f t) = t" if "t \<in> set tuples" for t
  proof (cases t)
    case (Pair name val)
    with that assms have "utf8_decode name = name" and "utf8_decode val = val"
      by (auto dest: utf8_valid_decode)
    with Pair show ?thesis
      by (simp add: cut_at_found urlencoded_string_no_separator urlencoded_string_decode)
  qed
  have "map ?g (map ?f tuples) = tuples"
    unfolding map_map comp_def by (rule map_idI) (rule one)
  then show ?thesis
    unfolding urlencoded_parse_def urlencoded_serialize_def split keep .
qed

lemma urlencoded_parse_valid:
  "\<forall>(name, val)\<in>set (urlencoded_parse input). utf8_valid name \<and> utf8_valid val"
  by (auto simp: urlencoded_parse_def utf8_decode_valid utf8_valid_Nil split: prod.splits option.splits)

lemma URL_parse_searchParams_valid:
  assumes "URL_parse other input base = Inr u"
  shows "\<forall>(name, val)\<in>set (searchParams u). utf8_valid name \<and> utf8_valid val"
proof -
  from assms have "searchParams u = [] \<or> (\<exists>x. searchParams u = urlencoded_parse x)"
    by (auto simp: URL_parse_def Let_def split: prod.splits option.splits if_splits)
  then show ?thesis
  proof
    assume "searchParams u = []"
    then show ?thesis by simp
  next
    assume "\<exists>x. searchParams u = urlencoded_parse x"
    then obtain x where "searchParams u = urlencoded_parse x" ..
    then show ?thesis
      using urlencoded_parse_valid [of x] by simp
  qed
qed

text \<open>
  Bytes that are not UTF-8 do not come back: a parameter \<open>x=%FF\<close> is read as U+FFFD
  and written as \<open>x=%EF%BF%BD\<close>.
\<close>

lemma urlencoded_ill_formed:
  "urlencoded_parse ''x=%FF'' = [(''x'', replacement)]"
  "urlencoded_serialize (urlencoded_parse ''x=%FF'') = ''x=%EF%BF%BD''"
  by code_simp+

section \<open>Parsing a callback URL\<close>

lemma dropWhile_stop: "\<not> P y \<Longrightarrow> dropWhile P (xs @ y # ys) = dropWhile P xs @ y # ys"
  by (induction xs) auto

lemma not_space_question: "\<not> c0_control_or_space (CHR ''?'')" "\<not> ascii_tab_or_newline (CHR ''?'')"
  by (simp_all add: c0_control_or_space_def ascii_tab_or_newline_def code_of_def)

lemma url_preprocess_prefix:
  assumes "p \<noteq> []" and "\<not> c0_control_or_space (hd p)" and "\<forall>c\<in>set p. \<not> ascii_tab_or_newline c"
  shows "url_preprocess (p @ CHR ''?'' # t) = p @ CHR ''?'' # callback_tail t"
proof -
  from assms(1,2) have lead: "dropWhile c0_control_or_space (p @ CHR ''?'' # t) = p @ CHR ''?'' # t"
    by (cases p) auto
  have trail: "dropWhile c0_control_or_space (rev t @ CHR ''?'' # rev p)
      = dropWhile c0_control_or_space (rev t) @ CHR ''?'' # rev p"
    by (rule dropWhile_stop) (rule not_space_question)
  from assms(3) have keep: "filter (\<lambda>c. \<not> ascii_tab_or_newline c) p = p"
    by (simp add: filter_id_conv)
  show ?thesis
    by (simp add: url_preprocess_def lead trail keep callback_tail_def not_space_question)
qed

lemma cut_at_append:
  "c \<notin> set a \<Longrightarrow> cut_at c (a @ b) = (a @ fst (cut_at c b), snd (cut_at c b))"
  by (induction a) (auto simp: cut_at_def)

lemma URL_parse_prefix:
  assumes "p \<noteq> []" and "\<not> c0_control_or_space (hd p)"
    and "\<forall>c\<in>set p. \<not> ascii_tab_or_newline c" and "CHR ''#'' \<notin> set p" and "CHR ''?'' \<notin> set p"
    and "parse_prefix other p base = Some (sh, pa, True)"
  shows "URL_parse other (p @ CHR ''?'' # t) base =
     Inr \<lparr> scheme_host = sh, pathname = pa,
           query = Some (percent_encode special_query_percent_encode_set
                           (fst (cut_at (CHR ''#'') (callback_tail t)))),
           searchParams = callback_query t,
           fragment = map_option (percent_encode fragment_percent_encode_set)
                        (snd (cut_at (CHR ''#'') (callback_tail t))) \<rparr>"
proof -
  have pre: "url_preprocess (p @ CHR ''?'' # t) = (p @ ''?'') @ callback_tail t"
    using url_preprocess_prefix [OF assms(1-3)] by simp
  have hash: "CHR ''#'' \<notin> set (p @ ''?'')" using assms(4) by simp
  have c1: "cut_at (CHR ''#'') (url_preprocess (p @ CHR ''?'' # t))
      = (p @ CHR ''?'' # fst (cut_at (CHR ''#'') (callback_tail t)),
         snd (cut_at (CHR ''#'') (callback_tail t)))"
    unfolding pre using cut_at_append [OF hash] by simp
  have c2: "cut_at (CHR ''?'') (p @ CHR ''?'' # x) = (p, Some x)" for x
    using assms(5) by (rule cut_at_found)
  show ?thesis
    by (simp add: URL_parse_def c1 c2 assms(6) callback_query_def)
qed


lemma placeholder_parsed:
  "URL_parse other PLACEHOLDER_URL None =
     Inr \<lparr> scheme_host = ''http://localhost'', pathname = ''/'', query = None,
           searchParams = [], fragment = None \<rparr>"
proof -
  have a: "url_preprocess ''http://localhost'' = ''http://localhost''" by code_simp
  have b: "cut_at (CHR ''#'') ''http://localhost'' = (''http://localhost'', None)" by code_simp
  have c: "cut_at (CHR ''?'') ''http://localhost'' = (''http://localhost'', None)" by code_simp
  have d: "plain_absolute ''http://localhost'' = Some (''http://localhost'', ''/'')" by code_simp
  show ?thesis
    by (simp add: URL_parse_def PLACEHOLDER_URL_def a b c parse_prefix_def d)
qed

lemma relative_callback_prefix:
  assumes "http_origin b"
  shows "parse_prefix other ''/callback'' (Some b) = Some (scheme_host b, ''/callback'', True)"
proof -
  have a: "plain_absolute ''/callback'' = None" by code_simp
  have s: "has_scheme ''/callback'' = False" by code_simp
  have r: "plain_relative ''/callback'' = True" by code_simp
  show ?thesis using assms by (simp add: parse_prefix_def a s r)
qed

lemma absolute_callback_prefix:
  "parse_prefix other ''http://localhost/callback'' base
     = Some (''http://localhost'', ''/callback'', True)"
proof -
  have a: "plain_absolute ''http://localhost/callback'' = Some (''http://localhost'', ''/callback'')"
    by code_simp
  show ?thesis by (simp add: parse_prefix_def a)
qed

lemma relative_callback_URL:
  assumes "URL_parse other b None = Inr bu" and "http_origin bu"
  shows "URL_new other (''/callback?'' @ t) (Some b) =
     Inr \<lparr> scheme_host = scheme_host bu, pathname = ''/callback'',
           query = Some (percent_encode special_query_percent_encode_set
                           (fst (cut_at (CHR ''#'') (callback_tail t)))),
           searchParams = callback_query t,
           fragment = map_option (percent_encode fragment_percent_encode_set)
                        (snd (cut_at (CHR ''#'') (callback_tail t))) \<rparr>"
proof -
  have 1: "''/callback'' \<noteq> []" by simp
  have 2: "\<not> c0_control_or_space (hd ''/callback'')"
    by (simp add: c0_control_or_space_def code_of_def)
  have 3: "\<forall>c\<in>set ''/callback''. \<not> ascii_tab_or_newline c"
    by (simp add: ascii_tab_or_newline_def code_of_def)
  have 4: "CHR ''#'' \<notin> set ''/callback''" by simp
  have 5: "CHR ''?'' \<notin> set ''/callback''" by simp
  show ?thesis
    using URL_parse_prefix [OF 1 2 3 4 5 relative_callback_prefix [OF assms(2)], of other t]
    by (simp add: URL_new_def assms(1))
qed

lemma absolute_callback_URL:
  assumes "URL_parse other b None = Inr bu"
  shows "URL_new other (''http://localhost/callback?'' @ t) (Some b) =
     Inr \<lparr> scheme_host = ''http://localhost'', pathname = ''/callback'',
           query = Some (percent_encode special_query_percent_encode_set
                           (fst (cut_at (CHR ''#'') (callback_tail t)))),
           searchParams = callback_query t,
           fragment = map_option (percent_encode fragment_percent_encode_set)
                        (snd (cut_at (CHR ''#'') (callback_tail t))) \<rparr>"
proof -
  have 1: "''http://localhost/callback'' \<noteq> []" by simp
  have 2: "\<not> c0_control_or_space (hd ''http://localhost/callback'')"
    by (simp add: c0_control_or_space_def code_of_def)
  have 3: "\<forall>c\<in>set ''http://localhost/callback''. \<not> ascii_tab_or_newline c"
    by (simp add: ascii_tab_or_newline_def code_of_def)
  have 4: "CHR ''#'' \<notin> set ''http://localhost/callback''" by simp
  have 5: "CHR ''?'' \<notin> set ''http://localhost/callback''" by simp
  show ?thesis
    using URL_parse_prefix [OF 1 2 3 4 5 absolute_callback_prefix, of other t "Some bu"]
    by (simp add: URL_new_def assms(1))
qed

lemma placeholder_http_origin:
  "http_origin \<lparr> scheme_host = ''http://localhost'', pathname = ''/'', query = None,
                  searchParams = [], fragment = None \<rparr>"
  by (simp add: http_origin_def)

lemma callbackParams_relative:
  assumes "URL_parse other b None = Inr bu" and "http_origin bu"
  shows "callbackParams other b (''/callback?'' @ t) =
     Inr \<lparr> state_or_null = map_of (callback_query t) ''state'',
           code_or_null = map_of (callback_query t) ''code'',
           scope_or_null = map_of (callback_query t) ''scope'' \<rparr>"
  by (simp add: callbackParams_def relative_callback_URL [OF assms] searchParams_get_def
      STATE_def CODE_def SCOPE_def del: append.simps)

lemma callbackParams_absolute:
  assumes "URL_parse other b None = Inr bu"
  shows "callbackParams other b (''http://localhost/callback?'' @ t) =
     Inr \<lparr> state_or_null = map_of (callback_query t) ''state'',
           code_or_null = map_of (callback_query t) ''code'',
           scope_or_null = map_of (callback_query t) ''scope'' \<rparr>"
  by (simp add: callbackParams_def absolute_callback_URL [OF assms] searchParams_get_def
      STATE_def CODE_def SCOPE_def del: append.simps)

section \<open>Building the authorization URI\<close>

lemma js_join_not_Nil: "x \<noteq> [] \<Longrightarrow> js_join sep (x # xs) \<noteq> []"
  by (cases xs) auto

lemma urlencoded_serialize_not_Nil: "tuples \<noteq> [] \<Longrightarrow> urlencoded_serialize tuples \<noteq> []"
proof (cases tuples)
  case Nil
  assume "tuples \<noteq> []"
  with Nil show ?thesis by simp
next
  case (Cons t ts)
  obtain name val where t: "t = (name, val)" by (cases t)
  have "urlencoded_string name @ ''='' @ urlencoded_string val \<noteq> []" by simp
  then show ?thesis
    unfolding urlencoded_serialize_def Cons t by (simp add: js_join_not_Nil del: js_join.simps)
qed

lemma append_then_href:
  "href (searchParams_append u name val) =
     scheme_host u @ pathname u @ ''?'' @ urlencoded_serialize (searchParams u @ [(name, val)])
     @ (case fragment u of None \<Rightarrow> [] | Some f \<Rightarrow> ''#'' @ f)"
  by (simp add: href_def searchParams_append_def Let_def urlencoded_serialize_not_Nil)

lemma searchParams_append_fields:
  "searchParams (searchParams_append u name val) = searchParams u @ [(name, val)]"
  "scheme_host (searchParams_append u name val) = scheme_host u"
  "pathname (searchParams_append u name val) = pathname u"
  "fragment (searchParams_append u name val) = fragment u"
  by (simp_all add: searchParams_append_def Let_def)

lemma getAuthorizationUri_accepted:
  assumes "URL_new other (authorizationUri (config this)) None = Inr u"
  shows "getAuthorizationUri other large this =
     Inr (scheme_host u @ pathname u @ ''?''
          @ urlencoded_serialize (searchParams u @ authorization_params large this)
          @ (case fragment u of None \<Rightarrow> [] | Some f \<Rightarrow> ''#'' @ f))"
  by (simp add: getAuthorizationUri_def assms Let_def append_then_href searchParams_append_fields
      authorization_params_def CLIENT_ID_def REDIRECT_URI_def RESPONSE_TYPE_def
      RESPONSE_TYPE_CODE_def APPROVAL_PROMPT_def APPROVAL_PROMPT_AUTO_def SCOPE_def)

lemma getAuthorizationUri_rejected:
  "URL_new other (authorizationUri (config this)) None = Inl e
    \<Longrightarrow> getAuthorizationUri other large this = Inl e"
  by (simp add: getAuthorizationUri_def)

lemma authorization_query_text:
  "urlencoded_serialize (authorization_params large this) =
     ''client_id='' @ urlencoded_string (client_id_toString large (clientId (config this)))
     @ ''&redirect_uri='' @ urlencoded_string (redirectUri (config this))
     @ ''&response_type=code&approval_prompt=auto&scope=''
     @ urlencoded_string (scopesToString (scopes (config this)))"
proof -
  have l: "urlencoded_string ''client_id'' = ''client_id''"
    "urlencoded_string ''redirect_uri'' = ''redirect_uri''"
    "urlencoded_string ''response_type'' = ''response_type''"
    "urlencoded_string ''approval_prompt'' = ''approval_prompt''"
    "urlencoded_string ''scope'' = ''scope''"
    "urlencoded_string ''code'' = ''code''"
    "urlencoded_string ''auto'' = ''auto''"
    by code_simp+
  show ?thesis
    by (simp add: urlencoded_serialize_def authorization_params_def l)
qed

section \<open>Plain URLs parse to themselves\<close>

lemma plain_host_chars:
  assumes "plain_host h" and "x \<in> set h"
  shows "ascii_lower x \<or> x = CHR ''.''"
proof -
  have "x \<in> set (js_join ''.'' (js_split (CHR ''.'') h))"
    using assms(2) by (simp add: js_join_split)
  then have "x = CHR ''.'' \<or> (\<exists>l\<in>set (js_split (CHR ''.'') h). x \<in> set l)"
    using js_join_chars [of "CHR ''.''" "js_split (CHR ''.'') h"] by auto
  with assms(1) show ?thesis
    by (auto simp: plain_host_def list_all_iff)
qed

lemma inert_by_code:
  assumes "32 < code_of c" and "code_of c \<noteq> 35" and "code_of c \<noteq> 63"
  shows "inert c"
  using assms
  by (auto simp: inert_def c0_control_or_space_def ascii_tab_or_newline_def code_of_def)

lemma inert_lower: "ascii_lower c \<Longrightarrow> inert c"
  by (rule inert_by_code) (auto simp: ascii_lower_def)

lemma inert_alphanumeric: "ascii_alphanumeric c \<Longrightarrow> inert c"
  by (rule inert_by_code)
    (auto simp: ascii_alphanumeric_def ascii_alpha_def ascii_lower_def ascii_upper_def
      ascii_digit_def)

lemma inert_punctuation: "c \<in> set ''/-_~.:'' \<Longrightarrow> inert c"
  by (rule inert_by_code) (auto simp: code_of_def)

lemma strip_prefix_Some: "strip_prefix p s = Some r \<Longrightarrow> s = p @ r"
  by (auto simp: strip_prefix_def split: if_splits) (metis append_take_drop_id)

lemma plain_absolute_parts:
  assumes "plain_absolute a = Some (sh, p)"
  shows "\<exists>sch r. (sch = ''http://'' \<or> sch = ''https://'') \<and> a = sch @ r
           \<and> plain_host (takeWhile (\<lambda>c. c \<noteq> CHR ''/'') r)
           \<and> plain_path (dropWhile (\<lambda>c. c \<noteq> CHR ''/'') r)
           \<and> sh = sch @ takeWhile (\<lambda>c. c \<noteq> CHR ''/'') r
           \<and> p = (if dropWhile (\<lambda>c. c \<noteq> CHR ''/'') r = [] then ''/''
                  else dropWhile (\<lambda>c. c \<noteq> CHR ''/'') r)"
proof (cases "strip_prefix ''http://'' a")
  case (Some r)
  have "a = ''http://'' @ r" using Some by (rule strip_prefix_Some)
  moreover from assms Some
  have "plain_host (takeWhile (\<lambda>c. c \<noteq> CHR ''/'') r)
      \<and> plain_path (dropWhile (\<lambda>c. c \<noteq> CHR ''/'') r)
      \<and> sh = ''http://'' @ takeWhile (\<lambda>c. c \<noteq> CHR ''/'') r
      \<and> p = (if dropWhile (\<lambda>c. c \<noteq> CHR ''/'') r = [] then ''/''
             else dropWhile (\<lambda>c. c \<noteq> CHR ''/'') r)"
    by (auto simp: plain_absolute_def Let_def split: if_splits)
  ultimately show ?thesis
    by (intro exI [of _ "''http://''"] exI [of _ r]) simp
next
  case None
  note first = this
  show ?thesis
  proof (cases "strip_prefix ''https://'' a")
    case (Some r)
    have "a = ''https://'' @ r" using Some by (rule strip_prefix_Some)
    moreover from assms first Some
    have "plain_host (takeWhile (\<lambda>c. c \<noteq> CHR ''/'') r)
        \<and> plain_path (dropWhile (\<lambda>c. c \<noteq> CHR ''/'') r)
        \<and> sh = ''https://'' @ takeWhile (\<lambda>c. c \<noteq> CHR ''/'') r
        \<and> p = (if dropWhile (\<lambda>c. c \<noteq> CHR ''/'') r = [] then ''/''
               else dropWhile (\<lambda>c. c \<noteq> CHR ''/'') r)"
      by (auto simp: plain_absolute_def Let_def split: if_splits)
    ultimately show ?thesis
      by (intro exI [of _ "''https://''"] exI [of _ r]) simp
  next
    case None
    with assms first show ?thesis by (simp add: plain_absolute_def)
  qed
qed

lemma plain_absolute_inert:
  assumes "plain_absolute a = Some (sh, p)"
  shows "\<forall>c\<in>set a. inert c"
proof -
  from plain_absolute_parts [OF assms] obtain sch r
    where s: "sch = ''http://'' \<or> sch = ''https://''" and a: "a = sch @ r"
      and h: "plain_host (takeWhile (\<lambda>c. c \<noteq> CHR ''/'') r)"
      and pp: "plain_path (dropWhile (\<lambda>c. c \<noteq> CHR ''/'') r)"
    by blast
  have 1: "\<forall>c\<in>set sch. inert c"
    using s by (auto intro!: inert_by_code simp: code_of_def)
  have 2: "\<forall>c\<in>set (takeWhile (\<lambda>c. c \<noteq> CHR ''/'') r). inert c"
    using plain_host_chars [OF h] inert_lower inert_punctuation by fastforce
  have 3: "\<forall>c\<in>set (dropWhile (\<lambda>c. c \<noteq> CHR ''/'') r). inert c"
    using pp inert_alphanumeric inert_punctuation
    by (fastforce simp: plain_path_def list_all_iff)
  have "set r = set (takeWhile (\<lambda>c. c \<noteq> CHR ''/'') r) \<union> set (dropWhile (\<lambda>c. c \<noteq> CHR ''/'') r)"
    by (metis set_append takeWhile_dropWhile_id)
  with 1 2 3 show ?thesis unfolding a by auto
qed

lemma url_preprocess_inert:
  assumes "\<forall>c\<in>set a. inert c"
  shows "url_preprocess a = a"
proof -
  have d: "dropWhile c0_control_or_space xs = xs" if "\<forall>c\<in>set xs. inert c" for xs
    using that by (cases xs) (auto simp: inert_def)
  have "dropWhile c0_control_or_space (rev a) = rev a"
    using assms by (intro d) simp
  moreover have "filter (\<lambda>c. \<not> ascii_tab_or_newline c) a = a"
    using assms by (simp add: filter_id_conv inert_def)
  ultimately show ?thesis
    by (simp add: url_preprocess_def d [OF assms])
qed

lemma URL_new_plain:
  assumes "plain_absolute a = Some (sh, p)"
  shows "URL_new other a None =
     Inr \<lparr> scheme_host = sh, pathname = p, query = None, searchParams = [], fragment = None \<rparr>"
proof -
  have i: "\<forall>c\<in>set a. inert c" using assms by (rule plain_absolute_inert)
  then have "CHR ''#'' \<notin> set a" and "CHR ''?'' \<notin> set a"
    by (auto simp: inert_def)
  then have "cut_at (CHR ''#'') a = (a, None)" and "cut_at (CHR ''?'') a = (a, None)"
    by (simp_all add: cut_at_missing)
  then show ?thesis
    by (simp add: URL_new_def URL_parse_def url_preprocess_inert [OF i] parse_prefix_def assms)
qed

lemma plain_absolute_serialised:
  assumes "plain_absolute a = Some (sh, p)"
  shows "sh @ p = a \<or> (p = ''/'' \<and> sh = a)"
proof -
  from plain_absolute_parts [OF assms] obtain sch r
    where a: "a = sch @ r"
      and sh: "sh = sch @ takeWhile (\<lambda>c. c \<noteq> CHR ''/'') r"
      and p: "p = (if dropWhile (\<lambda>c. c \<noteq> CHR ''/'') r = [] then ''/''
                   else dropWhile (\<lambda>c. c \<noteq> CHR ''/'') r)"
    by blast
  show ?thesis
  proof (cases "dropWhile (\<lambda>c. c \<noteq> CHR ''/'') r = []")
    case True
    then have "takeWhile (\<lambda>c. c \<noteq> CHR ''/'') r = r"
      by (metis append_Nil2 takeWhile_dropWhile_id)
    with True a sh p show ?thesis by simp
  next
    case False
    with a sh p show ?thesis by simp
  qed
qed

section \<open>The scope check\<close>

lemma some_not_included_iff:
  "some_not_included requested granted \<longleftrightarrow> \<not> (\<forall>g\<in>set granted. g \<in> set requested)"
  by (induction granted) (auto simp: array_includes_def)

lemma getTokenFromObject_fail:
  assumes "\<not> (length (stringToScopes (scope po)) = length (scopes (config this))
     \<and> (\<forall>g\<in>set (stringToScopes (scope po)). g \<in> set (scopes (config this))))"
  shows "getTokenFromObject post this po =
     ([], Inl (Error (''Requested scopes '' @ scopesToString (scopes (config this))
                      @ '' not granted. Got: ''
                      @ scopesToString (stringToScopes (scope po)))))"
  using assms
  by (auto simp: getTokenFromObject_def Let_def some_not_included_iff scopesToString_def)

lemma getTokenFromObject_pass:
  assumes "length (stringToScopes (scope po)) = length (scopes (config this))"
    and "\<forall>g\<in>set (stringToScopes (scope po)). g \<in> set (scopes (config this))"
  shows "fst (getTokenFromObject post this po) =
     [\<lparr> post_url = tokenUri (config this),
        post_data = [(''client_id'', client_id_json (clientId (config this))),
                     (''client_secret'', JString (clientSecret (config this))),
                     (''code'', JString (code po)),
                     (''grant_type'', JString ''authorization_code'')] \<rparr>]"
  using assms
  by (auto simp: getTokenFromObject_def Let_def some_not_included_iff
      GRANT_TYPE_AUTHORIZATION_CODE_def split: sum.splits)

lemma getTokenFromObject_trace:
  "fst (getTokenFromObject post this po) = []
   \<or> fst (getTokenFromObject post this po) =
     [\<lparr> post_url = tokenUri (config this),
        post_data = [(''client_id'', client_id_json (clientId (config this))),
                     (''client_secret'', JString (clientSecret (config this))),
                     (''code'', JString (code po)),
                     (''grant_type'', JString ''authorization_code'')] \<rparr>]"
  using getTokenFromObject_fail [of po this post] getTokenFromObject_pass [of po this post]
  by (cases "length (stringToScopes (scope po)) = length (scopes (config this))
     \<and> (\<forall>g\<in>set (stringToScopes (scope po)). g \<in> set (scopes (config this)))") auto

lemma getToken_trace:
  "fst (getToken other ok post this req_url) = []
   \<or> (\<exists>po. callbackParams other PLACEHOLDER_URL req_url =
            Inr \<lparr> state_or_null = Some (state po), code_or_null = Some (code po),
                  scope_or_null = Some (scope po) \<rparr>
          \<and> fst (getToken other ok post this req_url) = fst (getTokenFromObject post this po)
          \<and> fst (getTokenFromObject post this po) \<noteq> [])"
proof (cases "callbackParams other PLACEHOLDER_URL req_url")
  case (Inl e)
  then show ?thesis by (simp add: getToken_def)
next
  case (Inr p)
  show ?thesis
  proof (cases "assertIsParamObj ok p")
    case (Inl e)
    with Inr show ?thesis by (simp add: getToken_def)
  next
    case po: (Inr po)
    then have "p = \<lparr> state_or_null = Some (state po), code_or_null = Some (code po),
                     scope_or_null = Some (scope po) \<rparr>"
      by (cases p) (auto simp: assertIsParamObj_def Let_def split: option.splits if_splits)
    with Inr po show ?thesis by (auto simp: getToken_def)
  qed
qed

lemma invoke_all_same: "invoke_all other large ok post this calls = this"
proof (induction calls)
  case Nil
  then show ?case by simp
next
  case (Cons c cs)
  then show ?case by (cases c) simp_all
qed

lemma demo_client_id: "client_id_toString large (clientId demo_config) = ''12345''"
  by (simp add: demo_config_def number_toString_def MAX_SAFE_INTEGER_def)

lemma parameter_names_valid:
  "utf8_valid ''client_id''" "utf8_valid ''redirect_uri''" "utf8_valid ''response_type''"
  "utf8_valid ''approval_prompt''" "utf8_valid ''scope''" "utf8_valid ''code''"
  "utf8_valid ''auto''"
  by code_simp+

section \<open>Claims on the scope conversions\<close>

text \<open>
  C3. For every non-empty ordered sequence \<open>S\<close> of scope identifiers (strings without a
  comma), splitting the comma join of \<open>S\<close> gives \<open>S\<close> back:
  \<open>stringToScopes (scopesToString S) = S\<close>.
\<close>

theorem scopes_round_trip:
  assumes "S \<noteq> []" and "list_all comma_free S"
  shows "stringToScopes (scopesToString S) = S"
  using assms
  by (simp add: stringToScopes_def scopesToString_def js_split_join list_all_iff comma_free_def)

theorem scopes_round_trip_witness:
  "[''read'', ''activity:read_all''] \<noteq> []
   \<and> list_all comma_free [''read'', ''activity:read_all'']
   \<and> stringToScopes (scopesToString [''read'', ''activity:read_all''])
       = [''read'', ''activity:read_all'']"
proof -
  have ne: "[''read'', ''activity:read_all''] \<noteq> []" by simp
  have cf: "list_all comma_free [''read'', ''activity:read_all'']"
    by (simp add: comma_free_def)
  from ne cf scopes_round_trip [OF ne cf] show ?thesis by simp
qed

text \<open>
  C4. \<open>scopesToString\<close> of the empty sequence is the empty string, and
  \<open>stringToScopes\<close> of the empty string is the one-element sequence holding the empty
  string: the empty piece is kept, so the two conversions are not inverse at the empty
  input.
\<close>

theorem scopes_empty_asymmetry:
  "scopesToString [] = [] \<and> stringToScopes [] = [[]]
   \<and> stringToScopes (scopesToString []) \<noteq> []"
  by (simp add: scopesToString_def stringToScopes_def)

section \<open>Claims on the configuration\<close>

text \<open>
  C5. \<open>validateConfig\<close> fails with an error exactly when \<open>clientId\<close> is missing or
  falsy or \<open>clientSecret\<close> is missing or falsy, and returns \<open>true\<close> otherwise. The
  \<open>clientId\<close> check comes first, the result does not depend on any other field, and the
  constructor fails with the same error before it sets the configuration, so no client
  is constructed from such a configuration.
\<close>

theorem validateConfig_spec:
  "(validateConfig cfg = Inr True
      \<longleftrightarrow> truthy_id (given_clientId cfg) \<and> truthy_string (given_clientSecret cfg))
   \<and> ((\<exists>msg. validateConfig cfg = Inl (Error msg))
      \<longleftrightarrow> \<not> truthy_id (given_clientId cfg) \<or> \<not> truthy_string (given_clientSecret cfg))
   \<and> (\<not> truthy_id (given_clientId cfg)
      \<longrightarrow> validateConfig cfg = Inl (Error ''client_id must be specified''))
   \<and> (truthy_id (given_clientId cfg) \<and> \<not> truthy_string (given_clientSecret cfg)
      \<longrightarrow> validateConfig cfg = Inl (Error ''client_secret must be specified''))
   \<and> validateConfig (cfg\<lparr> given_redirectUri := r, given_authorizationUri := a,
                          given_tokenUri := t, given_scopes := s \<rparr>) = validateConfig cfg
   \<and> (\<forall>e. validateConfig cfg = Inl e \<longrightarrow> Client_new d cfg = Inl e)
   \<and> ((\<exists>c. Client_new d cfg = Inr c) \<longleftrightarrow> validateConfig cfg = Inr True)"
  by (auto simp: validateConfig_def Client_new_def)

theorem validateConfig_spec_witness:
  "validateConfig (demo_given \<lparr> given_clientId := None, given_clientSecret := None \<rparr>)
     = Inl (Error ''client_id must be specified'')
   \<and> validateConfig (demo_given \<lparr> given_clientId := Some (IdNumber 0) \<rparr>)
     = Inl (Error ''client_id must be specified'')
   \<and> validateConfig (demo_given \<lparr> given_clientSecret := Some [] \<rparr>)
     = Inl (Error ''client_secret must be specified'')
   \<and> Client_new demo_config (demo_given \<lparr> given_clientSecret := Some [] \<rparr>)
     = Inl (Error ''client_secret must be specified'')
   \<and> validateConfig demo_given = Inr True
   \<and> (\<exists>c. Client_new demo_config demo_given = Inr c)"
  using
    validateConfig_spec [of "demo_given \<lparr> given_clientId := None, given_clientSecret := None \<rparr>"]
    validateConfig_spec [of "demo_given \<lparr> given_clientId := Some (IdNumber 0) \<rparr>"]
    validateConfig_spec [of "demo_given \<lparr> given_clientSecret := Some [] \<rparr>" _ _ _ _ demo_config]
    validateConfig_spec [of demo_given _ _ _ _ demo_config]
  by (simp add: demo_given_def)

text \<open>
  C10. The constructor validates the caller's configuration, not the merged one: when
  the caller's \<open>clientId\<close> or \<open>clientSecret\<close> is missing or falsy, no default
  configuration makes the construction succeed. A constructed client holds the merged
  configuration, whose \<open>clientId\<close> and \<open>clientSecret\<close> are the truthy values the caller
  gave, and it still holds them after any sequence of method calls.
\<close>

theorem constructed_client_credentials:
  "(\<not> truthy_id (given_clientId cfg) \<or> \<not> truthy_string (given_clientSecret cfg)
      \<longrightarrow> (\<forall>d. \<exists>e. Client_new d cfg = Inl e))
   \<and> (Client_new d cfg = Inr c
      \<longrightarrow> config c = spread d cfg
        \<and> given_clientId cfg = Some (clientId (config c))
        \<and> truthy_id (Some (clientId (config c)))
        \<and> given_clientSecret cfg = Some (clientSecret (config c))
        \<and> truthy_string (Some (clientSecret (config c)))
        \<and> (\<forall>calls. invoke_all other large ok post c calls = c))"
proof (intro conjI impI)
  assume "\<not> truthy_id (given_clientId cfg) \<or> \<not> truthy_string (given_clientSecret cfg)"
  then show "\<forall>d. \<exists>e. Client_new d cfg = Inl e"
    by (auto simp: Client_new_def validateConfig_def)
next
  assume built: "Client_new d cfg = Inr c"
  then have t: "truthy_id (given_clientId cfg)" "truthy_string (given_clientSecret cfg)"
    and c: "c = \<lparr> config = spread d cfg \<rparr>"
    by (auto simp: Client_new_def validateConfig_def split: if_splits)
  from t obtain i s where given: "given_clientId cfg = Some i" "given_clientSecret cfg = Some s"
    by (cases "given_clientId cfg"; cases "given_clientSecret cfg") auto
  show "config c = spread d cfg" by (simp add: c)
  show "given_clientId cfg = Some (clientId (config c))" by (simp add: c spread_def given)
  show "truthy_id (Some (clientId (config c)))" using t by (simp add: c spread_def given)
  show "given_clientSecret cfg = Some (clientSecret (config c))"
    by (simp add: c spread_def given)
  show "truthy_string (Some (clientSecret (config c)))"
    using t by (simp add: c spread_def given)
  show "\<forall>calls. invoke_all other large ok post c calls = c" by (simp add: invoke_all_same)
qed

theorem constructed_client_credentials_witness:
  "(\<exists>e. Client_new demo_config (demo_given \<lparr> given_clientId := None \<rparr>) = Inl e)
   \<and> Client_new demo_config demo_given = Inr \<lparr> config = demo_config \<rparr>
   \<and> given_clientId demo_given = Some (clientId demo_config)
   \<and> given_clientSecret demo_given = Some (clientSecret demo_config)
   \<and> invoke_all no_other no_large (\<lambda>po. True) demo_post \<lparr> config = demo_config \<rparr>
        [GetAuthorizationUri, GetToken ''/callback?code=abc&scope=read&state=x'',
         ValidateConfig demo_given] = \<lparr> config = demo_config \<rparr>"
proof -
  have built: "Client_new demo_config demo_given = Inr \<lparr> config = demo_config \<rparr>"
    by (simp add: Client_new_def validateConfig_def spread_def demo_given_def demo_config_def)
  have falsy: "\<not> truthy_id (given_clientId (demo_given \<lparr> given_clientId := None \<rparr>))"
    by simp
  from falsy built
    constructed_client_credentials [of "demo_given \<lparr> given_clientId := None \<rparr>"]
    constructed_client_credentials [of demo_given demo_config "\<lparr> config = demo_config \<rparr>"
      no_other no_large "\<lambda>po. True" demo_post]
  show ?thesis by simp
qed

section \<open>Claims on the token exchange\<close>

text \<open>
  C1. Let \<open>G\<close> be the granted scopes, \<open>stringToScopes\<close> of the \<open>scope\<close> field. Unless
  the length of \<open>G\<close> equals the length of the configured scopes and every element of
  \<open>G\<close> is among the configured scopes, \<open>getTokenFromObject\<close> fails with the
  scope-mismatch error and has sent no request. When both hold, it goes on to the
  network call.
\<close>

theorem scope_check_gate:
  "(\<not> (length (stringToScopes (scope po)) = length (scopes (config this))
        \<and> (\<forall>g\<in>set (stringToScopes (scope po)). g \<in> set (scopes (config this))))
      \<longrightarrow> getTokenFromObject post this po =
            ([], Inl (Error (''Requested scopes '' @ scopesToString (scopes (config this))
                             @ '' not granted. Got: ''
                             @ scopesToString (stringToScopes (scope po))))))
   \<and> (length (stringToScopes (scope po)) = length (scopes (config this))
        \<and> (\<forall>g\<in>set (stringToScopes (scope po)). g \<in> set (scopes (config this)))
      \<longrightarrow> fst (getTokenFromObject post this po) \<noteq> [])"
  using getTokenFromObject_fail [of po this post] getTokenFromObject_pass [of po this post]
  by auto

theorem scope_check_gate_witness:
  "fst (getTokenFromObject demo_post \<lparr> config = demo_config \<rparr>
          \<lparr> code = ''abc'', state = ''x'', scope = ''read,activity:read_all'' \<rparr>) \<noteq> []
   \<and> fst (getTokenFromObject demo_post
            \<lparr> config = demo_config \<lparr> scopes := [''activity:read_all'', ''read''] \<rparr> \<rparr>
            \<lparr> code = ''abc'', state = ''x'', scope = ''read,activity:read_all'' \<rparr>) \<noteq> []
   \<and> getTokenFromObject demo_post \<lparr> config = demo_config \<rparr>
          \<lparr> code = ''abc'', state = ''x'', scope = ''read'' \<rparr>
       = ([], Inl (Error ''Requested scopes read,activity:read_all not granted. Got: read''))"
  using
    scope_check_gate [of "\<lparr> code = ''abc'', state = ''x'', scope = ''read,activity:read_all'' \<rparr>"
      "\<lparr> config = demo_config \<rparr>" demo_post]
    scope_check_gate [of "\<lparr> code = ''abc'', state = ''x'', scope = ''read,activity:read_all'' \<rparr>"
      "\<lparr> config = demo_config \<lparr> scopes := [''activity:read_all'', ''read''] \<rparr> \<rparr>" demo_post]
    scope_check_gate [of "\<lparr> code = ''abc'', state = ''x'', scope = ''read'' \<rparr>"
      "\<lparr> config = demo_config \<rparr>" demo_post]
  by (simp add: stringToScopes_def scopesToString_def demo_config_def)

text \<open>
  C2. When the scope check passes, \<open>getTokenFromObject\<close> sends exactly one request: a
  POST to the configured \<open>tokenUri\<close> whose body has exactly the fields \<open>client_id\<close>
  (the configured \<open>clientId\<close>), \<open>client_secret\<close> (the configured \<open>clientSecret\<close>),
  \<open>code\<close> (from the parameter object) and \<open>grant_type\<close> with the value
  \<open>authorization_code\<close>. Neither \<open>getTokenFromObject\<close> nor \<open>getToken\<close> ever sends more
  than one request.
\<close>

theorem token_request_shape:
  "(length (stringToScopes (scope po)) = length (scopes (config this))
        \<and> (\<forall>g\<in>set (stringToScopes (scope po)). g \<in> set (scopes (config this)))
      \<longrightarrow> fst (getTokenFromObject post this po) =
            [\<lparr> post_url = tokenUri (config this),
               post_data = [(''client_id'', client_id_json (clientId (config this))),
                            (''client_secret'', JString (clientSecret (config this))),
                            (''code'', JString (code po)),
                            (''grant_type'', JString ''authorization_code'')] \<rparr>])
   \<and> length (fst (getTokenFromObject post this po)) \<le> 1
   \<and> length (fst (getToken other ok post this req_url)) \<le> 1"
proof -
  have one: "length (fst (getTokenFromObject post this p)) \<le> 1" for p
    using getTokenFromObject_trace [of post this p] by auto
  have "length (fst (getToken other ok post this req_url)) \<le> 1"
    using getToken_trace [of other ok post this req_url] one by auto
  with one [of po] getTokenFromObject_pass [of po this post] show ?thesis by blast
qed

theorem token_request_shape_witness:
  "fst (getTokenFromObject demo_post \<lparr> config = demo_config \<rparr>
          \<lparr> code = ''abc'', state = ''x'', scope = ''activity:read_all,read'' \<rparr>)
     = [\<lparr> post_url = ''https://www.strava.com/oauth/token'',
          post_data = [(''client_id'', JNumber 12345),
                       (''client_secret'', JString ''s3cret''),
                       (''code'', JString ''abc''),
                       (''grant_type'', JString ''authorization_code'')] \<rparr>]"
  using token_request_shape
    [of "\<lparr> code = ''abc'', state = ''x'', scope = ''activity:read_all,read'' \<rparr>"
      "\<lparr> config = demo_config \<rparr>" demo_post]
  by (simp add: stringToScopes_def demo_config_def)

text \<open>
  C8. Whenever the scope check fails, the error of \<open>getTokenFromObject\<close> has the message
  \<open>Requested scopes R not granted. Got: G\<close>, where \<open>R\<close> is the comma join of the
  configured scopes and \<open>G\<close> the comma join of the granted scopes, which is the \<open>scope\<close>
  string as it was received. No request is sent and no token is returned.
\<close>

theorem scope_mismatch_message:
  "\<not> (length (stringToScopes (scope po)) = length (scopes (config this))
       \<and> (\<forall>g\<in>set (stringToScopes (scope po)). g \<in> set (scopes (config this))))
   \<longrightarrow> getTokenFromObject post this po =
         ([], Inl (Error (''Requested scopes '' @ scopesToString (scopes (config this))
                          @ '' not granted. Got: ''
                          @ scopesToString (stringToScopes (scope po)))))
       \<and> scopesToString (stringToScopes (scope po)) = scope po
       \<and> (\<forall>t. snd (getTokenFromObject post this po) \<noteq> Inr t)"
  using getTokenFromObject_fail [of po this post]
  by (auto simp: scopesToString_def stringToScopes_def js_join_split)

theorem scope_mismatch_message_witness:
  "getTokenFromObject demo_post \<lparr> config = demo_config \<rparr>
     \<lparr> code = ''abc'', state = ''x'', scope = ''read,profile:write'' \<rparr>
   = ([], Inl (Error
        ''Requested scopes read,activity:read_all not granted. Got: read,profile:write''))"
  using scope_mismatch_message
    [of "\<lparr> code = ''abc'', state = ''x'', scope = ''read,profile:write'' \<rparr>"
      "\<lparr> config = demo_config \<rparr>" demo_post]
  by (simp add: stringToScopes_def scopesToString_def demo_config_def)

text \<open>
  C9. The scope check is not equality of multisets: against the configured scopes
  \<open>read, activity:read_all\<close>, the granted string \<open>read,read\<close> parses to two scopes that
  are not a permutation of the configured ones, and yet the check passes and the
  request is sent.
\<close>

theorem duplicate_scopes_pass:
  "stringToScopes ''read,read'' = [''read'', ''read'']
   \<and> mset (stringToScopes ''read,read'') \<noteq> mset (scopes demo_config)
   \<and> fst (getTokenFromObject post \<lparr> config = demo_config \<rparr>
            \<lparr> code = c, state = s, scope = ''read,read'' \<rparr>)
       = [\<lparr> post_url = ''https://www.strava.com/oauth/token'',
            post_data = [(''client_id'', JNumber 12345),
                         (''client_secret'', JString ''s3cret''),
                         (''code'', JString c),
                         (''grant_type'', JString ''authorization_code'')] \<rparr>]"
proof -
  have g: "stringToScopes ''read,read'' = [''read'', ''read'']"
    by (simp add: stringToScopes_def)
  have "fst (getTokenFromObject post \<lparr> config = demo_config \<rparr>
            \<lparr> code = c, state = s, scope = ''read,read'' \<rparr>)
       = [\<lparr> post_url = tokenUri (config \<lparr> config = demo_config \<rparr>),
            post_data =
              [(''client_id'', client_id_json (clientId (config \<lparr> config = demo_config \<rparr>))),
               (''client_secret'', JString (clientSecret (config \<lparr> config = demo_config \<rparr>))),
               (''code'', JString (code \<lparr> code = c, state = s, scope = ''read,read'' \<rparr>)),
               (''grant_type'', JString ''authorization_code'')] \<rparr>]"
    by (rule getTokenFromObject_pass) (simp_all add: g demo_config_def)
  then show ?thesis by (simp add: g demo_config_def)
qed

theorem duplicate_scopes_pass_witness:
  "fst (getTokenFromObject demo_post \<lparr> config = demo_config \<rparr>
          \<lparr> code = ''abc'', state = ''x'', scope = ''read,read'' \<rparr>) \<noteq> []"
  using duplicate_scopes_pass [of demo_post "''abc''" "''x''"] by simp

section \<open>Claim on the authorization URI\<close>

text \<open>
  C6, as the claim states it, fails: a configuration that passes \<open>validateConfig\<close> may
  carry an \<open>authorizationUri\<close> that the URL parser rejects (here one without a scheme),
  and then \<open>getAuthorizationUri\<close> returns no URI but fails; and when the
  \<open>authorizationUri\<close> has a query and a fragment of its own, the five parameters come
  after its own parameter and before its fragment.
\<close>

theorem authorization_uri_counterexample:
  "Client_new demo_config
      (demo_given \<lparr> given_authorizationUri := Some ''www.strava.com/oauth/authorize'' \<rparr>)
     = Inr \<lparr> config = demo_config \<lparr> authorizationUri := ''www.strava.com/oauth/authorize'' \<rparr> \<rparr>
   \<and> getAuthorizationUri no_other no_large
        \<lparr> config = demo_config \<lparr> authorizationUri := ''www.strava.com/oauth/authorize'' \<rparr> \<rparr>
     = Inl InvalidURL
   \<and> getAuthorizationUri no_other no_large
        \<lparr> config = demo_config
            \<lparr> authorizationUri := ''https://www.strava.com/oauth/authorize?x=1#top'' \<rparr> \<rparr>
     = Inr ''https://www.strava.com/oauth/authorize?x=1&client_id=12345&redirect_uri=https%3A%2F%2Fapp.example%2Fcallback&response_type=code&approval_prompt=auto&scope=read%2Cactivity%3Aread_all#top''"
proof -
  have built: "Client_new demo_config
      (demo_given \<lparr> given_authorizationUri := Some ''www.strava.com/oauth/authorize'' \<rparr>)
     = Inr \<lparr> config = demo_config \<lparr> authorizationUri := ''www.strava.com/oauth/authorize'' \<rparr> \<rparr>"
    by (simp add: Client_new_def validateConfig_def spread_def demo_given_def demo_config_def)
  have "URL_new no_other ''www.strava.com/oauth/authorize'' None = Inl InvalidURL"
    by code_simp
  then have rejected: "getAuthorizationUri no_other no_large
        \<lparr> config = demo_config \<lparr> authorizationUri := ''www.strava.com/oauth/authorize'' \<rparr> \<rparr>
     = Inl InvalidURL"
    by (intro getAuthorizationUri_rejected) simp
  have "URL_new no_other ''https://www.strava.com/oauth/authorize?x=1#top'' None
      = Inr \<lparr> scheme_host = ''https://www.strava.com'', pathname = ''/oauth/authorize'',
              query = Some ''x=1'', searchParams = [(''x'', ''1'')], fragment = Some ''top'' \<rparr>"
    by code_simp
  then have "getAuthorizationUri no_other no_large
        \<lparr> config = demo_config
            \<lparr> authorizationUri := ''https://www.strava.com/oauth/authorize?x=1#top'' \<rparr> \<rparr>
     = Inr (''https://www.strava.com'' @ ''/oauth/authorize'' @ ''?''
            @ urlencoded_serialize
                ([(''x'', ''1'')]
                 @ authorization_params no_large
                     \<lparr> config = demo_config
                         \<lparr> authorizationUri :=
                             ''https://www.strava.com/oauth/authorize?x=1#top'' \<rparr> \<rparr>)
            @ ''#'' @ ''top'')"
    using getAuthorizationUri_accepted
      [of no_other "\<lparr> config = demo_config
            \<lparr> authorizationUri := ''https://www.strava.com/oauth/authorize?x=1#top'' \<rparr> \<rparr>"
        _ no_large]
    by simp
  moreover have "authorization_params no_large
        \<lparr> config = demo_config
            \<lparr> authorizationUri := ''https://www.strava.com/oauth/authorize?x=1#top'' \<rparr> \<rparr>
      = [(''client_id'', ''12345''), (''redirect_uri'', ''https://app.example/callback''),
         (''response_type'', ''code''), (''approval_prompt'', ''auto''),
         (''scope'', ''read,activity:read_all'')]"
    using demo_client_id [of no_large]
    by (simp add: authorization_params_def) (simp add: demo_config_def scopesToString_def)
  moreover have "urlencoded_serialize
        ([(''x'', ''1'')]
         @ [(''client_id'', ''12345''), (''redirect_uri'', ''https://app.example/callback''),
            (''response_type'', ''code''), (''approval_prompt'', ''auto''),
            (''scope'', ''read,activity:read_all'')])
      = ''x=1&client_id=12345&redirect_uri=https%3A%2F%2Fapp.example%2Fcallback&response_type=code&approval_prompt=auto&scope=read%2Cactivity%3Aread_all''"
    by code_simp
  ultimately have extended: "getAuthorizationUri no_other no_large
        \<lparr> config = demo_config
            \<lparr> authorizationUri := ''https://www.strava.com/oauth/authorize?x=1#top'' \<rparr> \<rparr>
     = Inr ''https://www.strava.com/oauth/authorize?x=1&client_id=12345&redirect_uri=https%3A%2F%2Fapp.example%2Fcallback&response_type=code&approval_prompt=auto&scope=read%2Cactivity%3Aread_all#top''"
    by simp
  from built rejected extended show ?thesis by blast
qed

text \<open>
  C6, amended. When the URL parser rejects the configured \<open>authorizationUri\<close>,
  \<open>getAuthorizationUri\<close> fails with that error. When it accepts it, the result is the
  serialised scheme, authority and path of the parsed URI, a \<open>?\<close>, the form-urlencoded
  list of the parameters the URI already has followed by exactly the five parameters
  \<open>client_id\<close> (the configured \<open>clientId\<close> as a string), \<open>redirect_uri\<close>,
  \<open>response_type\<close> with the value \<open>code\<close>, \<open>approval_prompt\<close> with the value \<open>auto\<close>
  and \<open>scope\<close> (the comma join of the configured scopes), in this order, and then the
  fragment of the URI if it has one. When the client id, the redirect URI and the scopes
  are well-formed strings (without a lone surrogate), parsing the query gives every
  name and value back unchanged, whatever other characters they contain. For a plain
  \<open>http\<close> or \<open>https\<close> URI without query and fragment the result is the URI (with a
  \<open>/\<close> when it has no path) followed by \<open>?client_id=...&redirect_uri=...\<close>
  \<open>&response_type=code&approval_prompt=auto&scope=...\<close>. The result depends on the
  configuration and the URL library only; no request is sent.
\<close>

theorem authorization_uri_built:
  "(\<forall>e. URL_new other (authorizationUri (config this)) None = Inl e
        \<longrightarrow> getAuthorizationUri other large this = Inl e)
   \<and> (\<forall>u. URL_new other (authorizationUri (config this)) None = Inr u
        \<longrightarrow> getAuthorizationUri other large this =
              Inr (scheme_host u @ pathname u @ ''?''
                   @ urlencoded_serialize (searchParams u @ authorization_params large this)
                   @ (case fragment u of None \<Rightarrow> [] | Some f \<Rightarrow> ''#'' @ f))
          \<and> (utf8_valid (client_id_toString large (clientId (config this)))
               \<and> utf8_valid (redirectUri (config this))
               \<and> utf8_valid (scopesToString (scopes (config this)))
              \<longrightarrow> urlencoded_parse
                    (urlencoded_serialize (searchParams u @ authorization_params large this))
                  = searchParams u @ authorization_params large this))
   \<and> (\<forall>sh p. plain_absolute (authorizationUri (config this)) = Some (sh, p)
        \<longrightarrow> getAuthorizationUri other large this =
              Inr (sh @ p @ ''?client_id=''
                   @ urlencoded_string (client_id_toString large (clientId (config this)))
                   @ ''&redirect_uri='' @ urlencoded_string (redirectUri (config this))
                   @ ''&response_type=code&approval_prompt=auto&scope=''
                   @ urlencoded_string (scopesToString (scopes (config this))))
          \<and> (sh @ p = authorizationUri (config this)
               \<or> sh @ p = authorizationUri (config this) @ ''/''))
   \<and> authorization_params large this =
       [(''client_id'', client_id_toString large (clientId (config this))),
        (''redirect_uri'', redirectUri (config this)),
        (''response_type'', ''code''),
        (''approval_prompt'', ''auto''),
        (''scope'', scopesToString (scopes (config this)))]"
proof (intro conjI allI impI)
  fix e
  assume "URL_new other (authorizationUri (config this)) None = Inl e"
  then show "getAuthorizationUri other large this = Inl e"
    by (rule getAuthorizationUri_rejected)
next
  fix u
  assume "URL_new other (authorizationUri (config this)) None = Inr u"
  then show "getAuthorizationUri other large this =
      Inr (scheme_host u @ pathname u @ ''?''
           @ urlencoded_serialize (searchParams u @ authorization_params large this)
           @ (case fragment u of None \<Rightarrow> [] | Some f \<Rightarrow> ''#'' @ f))"
    by (rule getAuthorizationUri_accepted)
next
  fix u
  assume u: "URL_new other (authorizationUri (config this)) None = Inr u"
    and v: "utf8_valid (client_id_toString large (clientId (config this)))
               \<and> utf8_valid (redirectUri (config this))
               \<and> utf8_valid (scopesToString (scopes (config this)))"
  from u have own: "\<forall>(name, val)\<in>set (searchParams u). utf8_valid name \<and> utf8_valid val"
    by (intro URL_parse_searchParams_valid [of other _ None]) (simp add: URL_new_def)
  from v have five: "\<forall>(name, val)\<in>set (authorization_params large this).
      utf8_valid name \<and> utf8_valid val"
    by (simp add: authorization_params_def parameter_names_valid)
  from own five
  show "urlencoded_parse (urlencoded_serialize (searchParams u @ authorization_params large this))
      = searchParams u @ authorization_params large this"
    by (intro urlencoded_round_trip) auto
next
  fix sh p
  assume plain: "plain_absolute (authorizationUri (config this)) = Some (sh, p)"
  have "getAuthorizationUri other large this =
      Inr (sh @ p @ ''?'' @ urlencoded_serialize (authorization_params large this))"
    using getAuthorizationUri_accepted [OF URL_new_plain [OF plain], of other large] by simp
  then show "getAuthorizationUri other large this =
      Inr (sh @ p @ ''?client_id=''
           @ urlencoded_string (client_id_toString large (clientId (config this)))
           @ ''&redirect_uri='' @ urlencoded_string (redirectUri (config this))
           @ ''&response_type=code&approval_prompt=auto&scope=''
           @ urlencoded_string (scopesToString (scopes (config this))))"
    by (simp add: authorization_query_text)
next
  fix sh p
  assume "plain_absolute (authorizationUri (config this)) = Some (sh, p)"
  from plain_absolute_serialised [OF this]
  show "sh @ p = authorizationUri (config this) \<or> sh @ p = authorizationUri (config this) @ ''/''"
    by auto
next
  show "authorization_params large this =
       [(''client_id'', client_id_toString large (clientId (config this))),
        (''redirect_uri'', redirectUri (config this)),
        (''response_type'', ''code''),
        (''approval_prompt'', ''auto''),
        (''scope'', scopesToString (scopes (config this)))]"
    by (simp add: authorization_params_def)
qed

theorem authorization_uri_built_witness:
  "plain_absolute (authorizationUri (config \<lparr> config = demo_config \<rparr>))
     = Some (''https://www.strava.com'', ''/oauth/authorize'')
   \<and> getAuthorizationUri no_other no_large \<lparr> config = demo_config \<rparr>
     = Inr ''https://www.strava.com/oauth/authorize?client_id=12345&redirect_uri=https%3A%2F%2Fapp.example%2Fcallback&response_type=code&approval_prompt=auto&scope=read%2Cactivity%3Aread_all''
   \<and> utf8_valid ''12345'' \<and> utf8_valid ''https://app.example/callback''
   \<and> utf8_valid ''read,activity:read_all''
   \<and> urlencoded_parse
        ''client_id=12345&redirect_uri=https%3A%2F%2Fapp.example%2Fcallback&response_type=code&approval_prompt=auto&scope=read%2Cactivity%3Aread_all''
     = [(''client_id'', ''12345''), (''redirect_uri'', ''https://app.example/callback''),
        (''response_type'', ''code''), (''approval_prompt'', ''auto''),
        (''scope'', ''read,activity:read_all'')]
   \<and> URL_new no_other
        (authorizationUri (config \<lparr> config = demo_config \<lparr> authorizationUri := ''strava'' \<rparr> \<rparr>))
        None = Inl InvalidURL
   \<and> getAuthorizationUri no_other no_large
        \<lparr> config = demo_config \<lparr> authorizationUri := ''strava'' \<rparr> \<rparr>
     = Inl InvalidURL"
proof -
  let ?c = "\<lparr> config = demo_config \<rparr>"
  let ?u = "\<lparr> scheme_host = ''https://www.strava.com'', pathname = ''/oauth/authorize'',
              query = None, searchParams = [], fragment = None \<rparr>"
  note good = authorization_uri_built [where other = no_other and large = no_large and this = ?c]
  note fail = authorization_uri_built [where other = no_other and large = no_large
      and this = "\<lparr> config = demo_config \<lparr> authorizationUri := ''strava'' \<rparr> \<rparr>"]
  have "plain_absolute ''https://www.strava.com/oauth/authorize''
      = Some (''https://www.strava.com'', ''/oauth/authorize'')"
    by code_simp
  then have plain: "plain_absolute (authorizationUri (config ?c))
      = Some (''https://www.strava.com'', ''/oauth/authorize'')"
    by (simp add: demo_config_def)
  have parsed: "URL_new no_other (authorizationUri (config ?c)) None = Inr ?u"
    using URL_new_plain [OF plain] .
  have enc: "urlencoded_string ''12345'' = ''12345''"
    "urlencoded_string ''https://app.example/callback'' = ''https%3A%2F%2Fapp.example%2Fcallback''"
    "urlencoded_string ''read,activity:read_all'' = ''read%2Cactivity%3Aread_all''"
    by code_simp+
  have vals: "client_id_toString no_large (clientId (config ?c)) = ''12345''"
    "redirectUri (config ?c) = ''https://app.example/callback''"
    "scopesToString (scopes (config ?c)) = ''read,activity:read_all''"
    using demo_client_id [of no_large] by (simp_all add: demo_config_def scopesToString_def)
  have valid: "utf8_valid ''12345''" "utf8_valid ''https://app.example/callback''"
    "utf8_valid ''read,activity:read_all''"
    by code_simp+
  from good plain
  have uri: "getAuthorizationUri no_other no_large ?c
     = Inr ''https://www.strava.com/oauth/authorize?client_id=12345&redirect_uri=https%3A%2F%2Fapp.example%2Fcallback&response_type=code&approval_prompt=auto&scope=read%2Cactivity%3Aread_all''"
    unfolding vals enc by simp
  from good parsed valid
  have "urlencoded_parse (urlencoded_serialize (searchParams ?u @ authorization_params no_large ?c))
      = searchParams ?u @ authorization_params no_large ?c"
    unfolding vals by blast
  moreover have "urlencoded_serialize (searchParams ?u @ authorization_params no_large ?c)
      = ''client_id=12345&redirect_uri=https%3A%2F%2Fapp.example%2Fcallback&response_type=code&approval_prompt=auto&scope=read%2Cactivity%3Aread_all''"
    using authorization_query_text [of no_large ?c] unfolding vals enc by simp
  moreover have "authorization_params no_large ?c
      = [(''client_id'', ''12345''), (''redirect_uri'', ''https://app.example/callback''),
         (''response_type'', ''code''), (''approval_prompt'', ''auto''),
         (''scope'', ''read,activity:read_all'')]"
    using vals by (simp add: authorization_params_def)
  ultimately have returned: "urlencoded_parse
        ''client_id=12345&redirect_uri=https%3A%2F%2Fapp.example%2Fcallback&response_type=code&approval_prompt=auto&scope=read%2Cactivity%3Aread_all''
     = [(''client_id'', ''12345''), (''redirect_uri'', ''https://app.example/callback''),
        (''response_type'', ''code''), (''approval_prompt'', ''auto''),
        (''scope'', ''read,activity:read_all'')]"
    by simp
  have "URL_new no_other ''strava'' None = Inl InvalidURL" by code_simp
  then have bad: "URL_new no_other
        (authorizationUri (config \<lparr> config = demo_config \<lparr> authorizationUri := ''strava'' \<rparr> \<rparr>))
        None = Inl InvalidURL"
    by simp
  with fail have failed: "getAuthorizationUri no_other no_large
        \<lparr> config = demo_config \<lparr> authorizationUri := ''strava'' \<rparr> \<rparr>
     = Inl InvalidURL"
    by blast
  from plain uri valid returned bad failed show ?thesis by blast
qed

section \<open>Claim on the callback URL\<close>

text \<open>
  C7. \<open>getToken\<close> accepts a path-only callback URL as it accepts an absolute one: for
  every text \<open>q\<close> after the \<open>?\<close>, the parameter object read from \<open>/callback?q\<close> is the
  one read from \<open>http://localhost/callback?q\<close>, both parses succeed, and \<open>getToken\<close>
  gives the same requests and the same result on both. The parameter object is made of
  the first \<open>state\<close>, \<open>code\<close> and \<open>scope\<close> parameters of the query in \<open>q\<close> alone: it is
  the same for every \<open>http\<close> or \<open>https\<close> base in the place of the placeholder. A request
  that \<open>getToken\<close> sends goes to the configured \<open>tokenUri\<close> and carries the configured
  \<open>clientId\<close> and \<open>clientSecret\<close>, the \<open>code\<close> parameter of the query and the grant
  type, and nothing of the placeholder. The parameters are read as the URL library reads
  them, percent-decoded and then decoded as UTF-8: bytes that are not UTF-8, such as
  \<open>%FF\<close>, are read as U+FFFD from both URLs.
\<close>

theorem callback_path_only:
  "callbackParams other PLACEHOLDER_URL (''/callback?'' @ q)
     = callbackParams other PLACEHOLDER_URL (''http://localhost/callback?'' @ q)
   \<and> callbackParams other PLACEHOLDER_URL (''/callback?'' @ q)
     = Inr \<lparr> state_or_null = map_of (callback_query q) ''state'',
             code_or_null = map_of (callback_query q) ''code'',
             scope_or_null = map_of (callback_query q) ''scope'' \<rparr>
   \<and> getToken other ok post this (''/callback?'' @ q)
     = getToken other ok post this (''http://localhost/callback?'' @ q)
   \<and> (\<forall>b bu. URL_new other b None = Inr bu \<and> http_origin bu
        \<longrightarrow> callbackParams other b (''/callback?'' @ q)
            = callbackParams other PLACEHOLDER_URL (''/callback?'' @ q))
   \<and> (\<forall>r\<in>set (fst (getToken other ok post this (''/callback?'' @ q))).
        \<exists>c. map_of (callback_query q) ''code'' = Some c
           \<and> r = \<lparr> post_url = tokenUri (config this),
                    post_data = [(''client_id'', client_id_json (clientId (config this))),
                                 (''client_secret'', JString (clientSecret (config this))),
                                 (''code'', JString c),
                                 (''grant_type'', JString ''authorization_code'')] \<rparr>)"
proof -
  note base = placeholder_parsed [of other]
  have rel: "callbackParams other PLACEHOLDER_URL (''/callback?'' @ q)
     = Inr \<lparr> state_or_null = map_of (callback_query q) ''state'',
             code_or_null = map_of (callback_query q) ''code'',
             scope_or_null = map_of (callback_query q) ''scope'' \<rparr>"
    by (rule callbackParams_relative [OF base placeholder_http_origin])
  have abs: "callbackParams other PLACEHOLDER_URL (''http://localhost/callback?'' @ q)
     = Inr \<lparr> state_or_null = map_of (callback_query q) ''state'',
             code_or_null = map_of (callback_query q) ''code'',
             scope_or_null = map_of (callback_query q) ''scope'' \<rparr>"
    by (rule callbackParams_absolute [OF base])
  have same: "getToken other ok post this (''/callback?'' @ q)
     = getToken other ok post this (''http://localhost/callback?'' @ q)"
    unfolding getToken_def rel abs ..
  have any_base: "callbackParams other b (''/callback?'' @ q)
            = callbackParams other PLACEHOLDER_URL (''/callback?'' @ q)"
    if "URL_new other b None = Inr bu \<and> http_origin bu" for b bu
  proof -
    from that have "URL_parse other b None = Inr bu" and "http_origin bu"
      by (simp_all add: URL_new_def)
    then show ?thesis unfolding rel by (rule callbackParams_relative)
  qed
  have sent: "\<exists>c. map_of (callback_query q) ''code'' = Some c
           \<and> r = \<lparr> post_url = tokenUri (config this),
                    post_data = [(''client_id'', client_id_json (clientId (config this))),
                                 (''client_secret'', JString (clientSecret (config this))),
                                 (''code'', JString c),
                                 (''grant_type'', JString ''authorization_code'')] \<rparr>"
    if r: "r \<in> set (fst (getToken other ok post this (''/callback?'' @ q)))" for r
  proof -
    from r have "fst (getToken other ok post this (''/callback?'' @ q)) \<noteq> []" by auto
    with getToken_trace [of other ok post this "''/callback?'' @ q"]
    obtain po where p: "callbackParams other PLACEHOLDER_URL (''/callback?'' @ q) =
            Inr \<lparr> state_or_null = Some (state po), code_or_null = Some (code po),
                  scope_or_null = Some (scope po) \<rparr>"
      and t: "fst (getToken other ok post this (''/callback?'' @ q))
            = fst (getTokenFromObject post this po)"
      and n: "fst (getTokenFromObject post this po) \<noteq> []"
      by blast
    from p have c: "map_of (callback_query q) ''code'' = Some (code po)"
      unfolding rel by simp
    from n getTokenFromObject_trace [of post this po] r t
    have "r = \<lparr> post_url = tokenUri (config this),
                post_data = [(''client_id'', client_id_json (clientId (config this))),
                             (''client_secret'', JString (clientSecret (config this))),
                             (''code'', JString (code po)),
                             (''grant_type'', JString ''authorization_code'')] \<rparr>"
      by auto
    with c show ?thesis by blast
  qed
  from rel abs same any_base sent show ?thesis by (intro conjI allI impI ballI) simp_all
qed

theorem callback_path_only_witness:
  "URL_new no_other ''https://example.org/app?code=other'' None
     = Inr \<lparr> scheme_host = ''https://example.org'', pathname = ''/app'',
             query = Some ''code=other'', searchParams = [(''code'', ''other'')],
             fragment = None \<rparr>
   \<and> callbackParams no_other ''https://example.org/app?code=other''
        ''/callback?state=x&code=abc&scope=read,activity:read_all''
     = Inr \<lparr> state_or_null = Some ''x'', code_or_null = Some ''abc'',
             scope_or_null = Some ''read,activity:read_all'' \<rparr>
   \<and> getToken no_other (\<lambda>po. True) demo_post \<lparr> config = demo_config \<rparr>
        ''http://localhost/callback?state=x&code=abc&scope=read,activity:read_all''
     = ([\<lparr> post_url = ''https://www.strava.com/oauth/token'',
           post_data = [(''client_id'', JNumber 12345),
                        (''client_secret'', JString ''s3cret''),
                        (''code'', JString ''abc''),
                        (''grant_type'', JString ''authorization_code'')] \<rparr>],
        Inl (Transport ''offline''))
   \<and> callbackParams no_other PLACEHOLDER_URL ''http://localhost/callback?state=x&code=%FF&scope=read''
     = Inr \<lparr> state_or_null = Some ''x'', code_or_null = Some replacement,
             scope_or_null = Some ''read'' \<rparr>"
proof -
  let ?q = "''state=x&code=abc&scope=read,activity:read_all''"
  let ?r = "''state=x&code=%FF&scope=read''"
  have base: "URL_new no_other ''https://example.org/app?code=other'' None
     = Inr \<lparr> scheme_host = ''https://example.org'', pathname = ''/app'',
             query = Some ''code=other'', searchParams = [(''code'', ''other'')],
             fragment = None \<rparr>"
    by code_simp
  have origin: "http_origin \<lparr> scheme_host = ''https://example.org'', pathname = ''/app'',
             query = Some ''code=other'', searchParams = [(''code'', ''other'')],
             fragment = None \<rparr>"
    by (simp add: http_origin_def)
  have query: "callback_query ?q
      = [(''state'', ''x''), (''code'', ''abc''), (''scope'', ''read,activity:read_all'')]"
    by code_simp
  have run: "getToken no_other (\<lambda>po. True) demo_post \<lparr> config = demo_config \<rparr>
        (''/callback?'' @ ?q)
     = ([\<lparr> post_url = ''https://www.strava.com/oauth/token'',
           post_data = [(''client_id'', JNumber 12345),
                        (''client_secret'', JString ''s3cret''),
                        (''code'', JString ''abc''),
                        (''grant_type'', JString ''authorization_code'')] \<rparr>],
        Inl (Transport ''offline''))"
    by code_simp
  note claim = callback_path_only
    [of no_other ?q "\<lambda>po. True" demo_post "\<lparr> config = demo_config \<rparr>"]
  from claim base origin
  have "callbackParams no_other ''https://example.org/app?code=other'' (''/callback?'' @ ?q)
      = callbackParams no_other PLACEHOLDER_URL (''/callback?'' @ ?q)"
    by blast
  also from claim
  have "\<dots> = Inr \<lparr> state_or_null = map_of (callback_query ?q) ''state'',
                   code_or_null = map_of (callback_query ?q) ''code'',
                   scope_or_null = map_of (callback_query ?q) ''scope'' \<rparr>"
    by blast
  finally have params:
    "callbackParams no_other ''https://example.org/app?code=other'' (''/callback?'' @ ?q)
      = Inr \<lparr> state_or_null = Some ''x'', code_or_null = Some ''abc'',
              scope_or_null = Some ''read,activity:read_all'' \<rparr>"
    unfolding query by simp
  from claim
  have "getToken no_other (\<lambda>po. True) demo_post \<lparr> config = demo_config \<rparr>
          (''http://localhost/callback?'' @ ?q)
      = getToken no_other (\<lambda>po. True) demo_post \<lparr> config = demo_config \<rparr>
          (''/callback?'' @ ?q)"
    by simp
  with run have token: "getToken no_other (\<lambda>po. True) demo_post \<lparr> config = demo_config \<rparr>
        (''http://localhost/callback?'' @ ?q)
     = ([\<lparr> post_url = ''https://www.strava.com/oauth/token'',
           post_data = [(''client_id'', JNumber 12345),
                        (''client_secret'', JString ''s3cret''),
                        (''code'', JString ''abc''),
                        (''grant_type'', JString ''authorization_code'')] \<rparr>],
        Inl (Transport ''offline''))"
    by (simp only:)
  have ill: "callback_query ?r
      = [(''state'', ''x''), (''code'', replacement), (''scope'', ''read'')]"
    by code_simp
  note other_claim = callback_path_only
    [of no_other ?r "\<lambda>po. True" demo_post "\<lparr> config = demo_config \<rparr>"]
  have "callbackParams no_other PLACEHOLDER_URL (''http://localhost/callback?'' @ ?r)
      = callbackParams no_other PLACEHOLDER_URL (''/callback?'' @ ?r)"
    using other_claim [THEN conjunct1] by (rule sym)
  also have "\<dots> = Inr \<lparr> state_or_null = map_of (callback_query ?r) ''state'',
              code_or_null = map_of (callback_query ?r) ''code'',
              scope_or_null = map_of (callback_query ?r) ''scope'' \<rparr>"
    using other_claim [THEN conjunct2, THEN conjunct1] .
  finally have decoded:
    "callbackParams no_other PLACEHOLDER_URL (''http://localhost/callback?'' @ ?r)
      = Inr \<lparr> state_or_null = Some ''x'', code_or_null = Some replacement,
              scope_or_null = Some ''read'' \<rparr>"
    unfolding ill by simp
  from base params token decoded show ?thesis by simp
qed

end
